theory Spec2Isabelle
  imports Complex_Main "HOL-Library.Stream" "HOL-Library.Log_Nat"
begin

section \<open>BlockBlaster: the game-state core\<close>

text \<open>
  A shallow embedding of the game logic of \<^verbatim>\<open>blockblaster_game.c\<close>,
  \<^verbatim>\<open>blockblaster_context.h\<close> and \<^verbatim>\<open>blockblaster_shapes.h\<close>.

  Conventions of the embedding:
  \<^item> C's \<^verbatim>\<open>int\<close> and \<^verbatim>\<open>long\<close> values are \<open>int\<close>. Where a claim depends on the
    range of the machine type, in \<^verbatim>\<open>blockblaster_score_move\<close>, every arithmetic result
    is wrapped to 32 or 64 bits. Grid indices, loop counters and table positions stay
    far below these ranges and are computed without wrapping.
  \<^item> C's \<^verbatim>\<open>float\<close> is \<open>real\<close>. In \<^verbatim>\<open>blockblaster_score_move\<close> each conversion, sum
    and product is rounded to the nearest \<^verbatim>\<open>float\<close>; the weights of the shape picker
    are computed in exact arithmetic.
  \<^item> A two-dimensional array \<^verbatim>\<open>a[ROWS][COLS]\<close> is a function of the row and the column
    index, \<^verbatim>\<open>a[y][x]\<close> being \<open>a y x\<close>; a store updates the function at one index pair.
    Indices are \<open>int\<close>, as in the source, so that a store outside the array
    would be visible as a change at that index.
  \<^item> The runtime globals \<^verbatim>\<open>GRID_W\<close>, \<^verbatim>\<open>GRID_H\<close> and \<^verbatim>\<open>PIECES_PER_SET\<close> are the
    fields of a record that every function reading them takes as its first argument.
  \<^item> A \<^verbatim>\<open>for\<close> loop is a recursive function of its counter; a \<^verbatim>\<open>return\<close> inside
    a loop ends the recursion with that value.
\<close>

subsection \<open>Constants of \<^verbatim>\<open>blockblaster_context.h\<close>\<close>

definition PIECES_PER_SET_MAX :: int where "PIECES_PER_SET_MAX = 4"

definition DIFFICULTY_MAX_SCORE :: int where "DIFFICULTY_MAX_SCORE = 75000"
definition MIN_DIFFICULTY_WEIGHT :: real where "MIN_DIFFICULTY_WEIGHT = 1 / 100"
definition SCORE_PER_PLACED_CELL :: int where "SCORE_PER_PLACED_CELL = 1"
definition SCORE_PER_CLEARED_CELL :: int where "SCORE_PER_CLEARED_CELL = 10"
definition SCORE_PER_LINE_BONUS :: int where "SCORE_PER_LINE_BONUS = 25"
definition SCORE_MULTI_LINE_BONUS :: int where "SCORE_MULTI_LINE_BONUS = 50"
definition MAX_MULTIPLIER :: real where "MAX_MULTIPLIER = 20"
definition BAG_SIZE :: int where "BAG_SIZE = 24"
definition MAX_HIGH_SCORES :: int where "MAX_HIGH_SCORES = 5"
definition MAX_PLAYER_NAME_LEN :: nat where "MAX_PLAYER_NAME_LEN = 5"

text \<open>The runtime globals, \<^verbatim>\<open>int GRID_W = 10; int GRID_H = 10; int PIECES_PER_SET = 4;\<close>\<close>

record globals =
  GRID_W :: int
  GRID_H :: int
  PIECES_PER_SET :: int

subsection \<open>Data model\<close>

text \<open>Allegro's colour: the four channels red, green, blue and alpha.\<close>

datatype ALLEGRO_COLOR = Rgba real real real real

record Theme =
  fill :: ALLEGRO_COLOR
  stroke :: ALLEGRO_COLOR

record Shape =
  w :: int
  h :: int
  cells :: "int \<Rightarrow> int \<Rightarrow> bool"
  name :: string

record Grid =
  occ :: "int \<Rightarrow> int \<Rightarrow> bool"
  cell_theme :: "int \<Rightarrow> int \<Rightarrow> Theme"
  has_theme :: "int \<Rightarrow> int \<Rightarrow> bool"

text \<open>The store \<^verbatim>\<open>a[y][x] = v\<close>.\<close>

definition store2 :: "(int \<Rightarrow> int \<Rightarrow> 'a) \<Rightarrow> int \<Rightarrow> int \<Rightarrow> 'a \<Rightarrow> (int \<Rightarrow> int \<Rightarrow> 'a)" where
  "store2 arr y x v = arr(y := (arr y)(x := v))"

record HighScoreEntry =
  grid_w :: int
  grid_h :: int
  tray_count :: int
  score :: int
  highest_combo :: int
  name :: string

text \<open>
  The fields of \<^verbatim>\<open>GameContext\<close> that the game logic below reads or writes. The arrays
  \<^verbatim>\<open>high_scores[MAX_HIGH_SCORES]\<close> and \<^verbatim>\<open>bag[BAG_SIZE]\<close> are functions of the index.
\<close>

record GameContext =
  score :: int
  high_score :: int
  combo :: int
  highest_combo :: int
  last_move_mult :: real
  combo_miss :: int
  high_scores :: "int \<Rightarrow> HighScoreEntry"
  high_score_count :: int
  bag :: "int \<Rightarrow> int"
  bag_len :: int
  bag_pos :: int

subsection \<open>The shape table of \<^verbatim>\<open>blockblaster_shapes.h\<close>\<close>

text \<open>
  A C initialiser \<^verbatim>\<open>{w, h, {{...}, ...}, "name"}\<close> of a \<^verbatim>\<open>Shape\<close>: the listed rows
  fill the \<^verbatim>\<open>cells[SHAPE_MAX][SHAPE_MAX]\<close> array from its first element, and every element
  not listed is zero, that is false.
\<close>

definition cells_init :: "bool list list \<Rightarrow> int \<Rightarrow> int \<Rightarrow> bool" where
  "cells_init rows y x =
     (if 0 \<le> y \<and> y < int (length rows) \<and> 0 \<le> x \<and> x < int (length (rows ! nat y))
      then rows ! nat y ! nat x else False)"

definition Shape_init :: "int \<Rightarrow> int \<Rightarrow> bool list list \<Rightarrow> string \<Rightarrow> Shape" where
  "Shape_init sw sh rows nm = \<lparr>w = sw, h = sh, cells = cells_init rows, name = nm\<rparr>"

definition SHAPES :: "Shape list" where
  "SHAPES = [
      Shape_init 1 1 [[True]] ''1'',
      Shape_init 1 1 [[True]] ''1'',
      Shape_init 1 1 [[True]] ''1'',
      Shape_init 1 1 [[True]] ''1'',
      Shape_init 2 1 [[True, True]] ''I2'',
      Shape_init 2 1 [[True, True]] ''I2'',
      Shape_init 2 1 [[True, True]] ''I2'',
      Shape_init 2 1 [[True, True]] ''I2'',
      Shape_init 1 2 [[True], [True]] ''V2'',
      Shape_init 1 2 [[True], [True]] ''V2'',
      Shape_init 1 2 [[True], [True]] ''V2'',
      Shape_init 1 2 [[True], [True]] ''V2'',
      Shape_init 3 1 [[True, True, True]] ''I3'',
      Shape_init 3 1 [[True, True, True]] ''I3'',
      Shape_init 3 1 [[True, True, True]] ''I3'',
      Shape_init 3 1 [[True, True, True]] ''I3'',
      Shape_init 1 3 [[True], [True], [True]] ''V3'',
      Shape_init 1 3 [[True], [True], [True]] ''V3'',
      Shape_init 1 3 [[True], [True], [True]] ''V3'',
      Shape_init 1 3 [[True], [True], [True]] ''V3'',
      Shape_init 2 2 [[True, False], [False, True]] (''D'' @ [CHR 0x5C] @ ''2''),
      Shape_init 2 2 [[True, False], [False, True]] (''D'' @ [CHR 0x5C] @ ''2''),
      Shape_init 2 2 [[False, True], [True, False]] ''D/2'',
      Shape_init 2 2 [[False, True], [True, False]] ''D/2'',
      Shape_init 2 2 [[True, False], [True, True]] ''L2'',
      Shape_init 2 2 [[False, True], [True, True]] ''J2'',
      Shape_init 2 2 [[True, True], [True, True]] ''O2'',
      Shape_init 3 2 [[True, False, False], [True, True, True]] ''L3a'',
      Shape_init 2 3 [[True, True], [True, False], [True, False]] ''L3b'',
      Shape_init 3 2 [[False, False, True], [True, True, True]] ''J3a'',
      Shape_init 2 3 [[True, True], [False, True], [False, True]] ''J3b'',
      Shape_init 3 2 [[True, True, True], [False, True, False]] ''T'',
      Shape_init 3 2 [[False, True, False], [True, True, True]] ''T_flip'',
      Shape_init 2 3 [[False, True], [True, True], [False, True]] ''T_left'',
      Shape_init 2 3 [[True, False], [True, True], [True, False]] ''T_right'',
      Shape_init 3 2 [[True, True, False], [False, True, True]] ''S'',
      Shape_init 2 3 [[False, True], [True, True], [True, False]] ''SV'',
      Shape_init 3 2 [[False, True, True], [True, True, False]] ''Z'',
      Shape_init 2 3 [[True, False], [True, True], [False, True]] ''ZV'',
      Shape_init 3 2 [[True, True, True], [True, False, False]] ''C3a'',
      Shape_init 3 2 [[True, True, True], [False, False, True]] ''C3c'',
      Shape_init 4 1 [[True, True, True, True]] ''I4'',
      Shape_init 1 4 [[True], [True], [True], [True]] ''V4'',
      Shape_init 3 3 [[True, False, False], [True, False, False], [True, True, True]] ''L4'',
      Shape_init 3 3 [[False, False, True], [False, False, True], [True, True, True]] ''J4'',
      Shape_init 3 3 [[True, True, True], [False, True, False], [False, True, False]] ''T4'',
      Shape_init 3 3 [[False, True, False], [False, True, False], [True, True, True]] ''T4R'',
      Shape_init 3 2 [[True, False, True], [True, True, True]] ''U3x2'',
      Shape_init 3 2 [[True, True, True], [True, False, True]] ''U3x2_flip'',
      Shape_init 2 3 [[True, True], [True, False], [True, True]] ''U2x3_right'',
      Shape_init 2 3 [[True, True], [False, True], [True, True]] ''U2x3_left'',
      Shape_init 3 2 [[True, True, True], [True, True, True]] ''R3x2'',
      Shape_init 2 3 [[True, True], [True, True], [True, True]] ''R2x3'',
      Shape_init 3 3 [[False, True, False], [True, True, True], [False, True, False]] ''Plus'',
      Shape_init 3 3 [[True, True, True], [True, True, True], [True, True, True]] ''O3'',
      Shape_init 3 3 [[True, False, False], [False, True, False], [False, False, True]] (''D'' @ [CHR 0x5C] @ ''3''),
      Shape_init 3 3 [[False, False, True], [False, True, False], [True, False, False]] ''D/3'',
      Shape_init 5 1 [[True, True, True, True, True]] ''I5'',
      Shape_init 1 5 [[True], [True], [True], [True], [True]] ''V5'',
      Shape_init 4 4 [[True, False, False, False], [False, True, False, False], [False, False, True, False], [False, False, False, True]] (''D'' @ [CHR 0x5C] @ ''4''),
      Shape_init 4 4 [[False, False, False, True], [False, False, True, False], [False, True, False, False], [True, False, False, False]] ''D/4'']"

definition SHAPES_COUNT :: int where
  "SHAPES_COUNT = int (length SHAPES)"

subsection \<open>Grid engine\<close>

definition blockblaster_shape_cell :: "Shape \<Rightarrow> int \<Rightarrow> int \<Rightarrow> bool" where
  "blockblaster_shape_cell s x y =
     (if x < 0 \<or> y < 0 \<or> x \<ge> w s \<or> y \<ge> h s then False else cells s y x)"

text \<open>
  \<^verbatim>\<open>blockblaster_can_place_at\<close>: the inner loop over \<^verbatim>\<open>sx\<close> and the outer loop over
  \<^verbatim>\<open>sy\<close>. The inner loop yields \<open>False\<close> where the source returns false and \<open>True\<close>
  where it runs to its end.
\<close>

function can_place_at_sx :: "globals \<Rightarrow> Grid \<Rightarrow> Shape \<Rightarrow> int \<Rightarrow> int \<Rightarrow> int \<Rightarrow> int \<Rightarrow> bool" where
  "can_place_at_sx G gr s gx gy sy sx =
     (if sx < w s then
        (if \<not> blockblaster_shape_cell s sx sy then can_place_at_sx G gr s gx gy sy (sx + 1)
         else
           let x = gx + sx; y = gy + sy in
           if x < 0 \<or> y < 0 \<or> x \<ge> GRID_W G \<or> y \<ge> GRID_H G then False
           else if occ gr y x then False
           else can_place_at_sx G gr s gx gy sy (sx + 1))
      else True)"
  by pat_completeness auto
termination
  by (relation "measure (\<lambda>(G, gr, s, gx, gy, sy, sx). nat (w s - sx))") auto

function can_place_at_sy :: "globals \<Rightarrow> Grid \<Rightarrow> Shape \<Rightarrow> int \<Rightarrow> int \<Rightarrow> int \<Rightarrow> bool" where
  "can_place_at_sy G gr s gx gy sy =
     (if sy < h s then
        (if can_place_at_sx G gr s gx gy sy 0 then can_place_at_sy G gr s gx gy (sy + 1)
         else False)
      else True)"
  by pat_completeness auto
termination
  by (relation "measure (\<lambda>(G, gr, s, gx, gy, sy). nat (h s - sy))") auto

definition blockblaster_can_place_at :: "globals \<Rightarrow> Grid \<Rightarrow> Shape \<Rightarrow> int \<Rightarrow> int \<Rightarrow> bool" where
  "blockblaster_can_place_at G gr s gx gy = can_place_at_sy G gr s gx gy 0"

text \<open>\<^verbatim>\<open>blockblaster_place_shape\<close>, with the same two loops; the grid is threaded through.\<close>

function place_shape_sx :: "globals \<Rightarrow> Shape \<Rightarrow> int \<Rightarrow> int \<Rightarrow> Theme \<Rightarrow> int \<Rightarrow> int \<Rightarrow> Grid \<Rightarrow> Grid" where
  "place_shape_sx G s gx gy theme sy sx gr =
     (if sx < w s then
        (if \<not> blockblaster_shape_cell s sx sy then place_shape_sx G s gx gy theme sy (sx + 1) gr
         else
           let x = gx + sx; y = gy + sy in
           if x \<ge> 0 \<and> y \<ge> 0 \<and> x < GRID_W G \<and> y < GRID_H G then
             place_shape_sx G s gx gy theme sy (sx + 1)
               (gr\<lparr>occ := store2 (occ gr) y x True,
                   cell_theme := store2 (cell_theme gr) y x theme,
                   has_theme := store2 (has_theme gr) y x True\<rparr>)
           else place_shape_sx G s gx gy theme sy (sx + 1) gr)
      else gr)"
  by pat_completeness auto
termination
  by (relation "measure (\<lambda>(G, s, gx, gy, theme, sy, sx, gr). nat (w s - sx))") auto

function place_shape_sy :: "globals \<Rightarrow> Shape \<Rightarrow> int \<Rightarrow> int \<Rightarrow> Theme \<Rightarrow> int \<Rightarrow> Grid \<Rightarrow> Grid" where
  "place_shape_sy G s gx gy theme sy gr =
     (if sy < h s then
        place_shape_sy G s gx gy theme (sy + 1) (place_shape_sx G s gx gy theme sy 0 gr)
      else gr)"
  by pat_completeness auto
termination
  by (relation "measure (\<lambda>(G, s, gx, gy, theme, sy, gr). nat (h s - sy))") auto

definition blockblaster_place_shape :: "globals \<Rightarrow> Grid \<Rightarrow> Shape \<Rightarrow> int \<Rightarrow> int \<Rightarrow> Theme \<Rightarrow> Grid" where
  "blockblaster_place_shape G gr s gx gy theme = place_shape_sy G s gx gy theme 0 gr"

text \<open>
  The number of filled cells of a shape, as \<^verbatim>\<open>blockblaster_try_drop\<close> counts it
  (\<^verbatim>\<open>placed_cells++\<close> for every cell of the \<open>w\<close> by \<open>h\<close> box that
  \<^verbatim>\<open>blockblaster_shape_cell\<close> reports filled).
\<close>

function placed_cells_sx :: "Shape \<Rightarrow> int \<Rightarrow> int \<Rightarrow> int \<Rightarrow> int" where
  "placed_cells_sx s sy sx n =
     (if sx < w s then
        (if \<not> blockblaster_shape_cell s sx sy then placed_cells_sx s sy (sx + 1) n
         else placed_cells_sx s sy (sx + 1) (n + 1))
      else n)"
  by pat_completeness auto
termination
  by (relation "measure (\<lambda>(s, sy, sx, n). nat (w s - sx))") auto

function placed_cells_sy :: "Shape \<Rightarrow> int \<Rightarrow> int \<Rightarrow> int" where
  "placed_cells_sy s sy n =
     (if sy < h s then placed_cells_sy s (sy + 1) (placed_cells_sx s sy 0 n) else n)"
  by pat_completeness auto
termination
  by (relation "measure (\<lambda>(s, sy, n). nat (h s - sy))") auto

definition placed_cells :: "Shape \<Rightarrow> int" where
  "placed_cells s = placed_cells_sy s 0 0"

text \<open>
  \<^verbatim>\<open>is_row_full\<close> and \<^verbatim>\<open>is_col_full\<close>: the loop returns false at the first free cell.
\<close>

function is_row_full_x :: "globals \<Rightarrow> (int \<Rightarrow> int \<Rightarrow> bool) \<Rightarrow> int \<Rightarrow> int \<Rightarrow> bool" where
  "is_row_full_x G grid y x =
     (if x < GRID_W G then (if \<not> grid y x then False else is_row_full_x G grid y (x + 1))
      else True)"
  by pat_completeness auto
termination
  by (relation "measure (\<lambda>(G, grid, y, x). nat (GRID_W G - x))") auto

definition is_row_full :: "globals \<Rightarrow> (int \<Rightarrow> int \<Rightarrow> bool) \<Rightarrow> int \<Rightarrow> bool" where
  "is_row_full G grid y = is_row_full_x G grid y 0"

function is_col_full_y :: "globals \<Rightarrow> (int \<Rightarrow> int \<Rightarrow> bool) \<Rightarrow> int \<Rightarrow> int \<Rightarrow> bool" where
  "is_col_full_y G grid x y =
     (if y < GRID_H G then (if \<not> grid y x then False else is_col_full_y G grid x (y + 1))
      else True)"
  by pat_completeness auto
termination
  by (relation "measure (\<lambda>(G, grid, x, y). nat (GRID_H G - y))") auto

definition is_col_full :: "globals \<Rightarrow> (int \<Rightarrow> int \<Rightarrow> bool) \<Rightarrow> int \<Rightarrow> bool" where
  "is_col_full G grid x = is_col_full_y G grid x 0"

text \<open>
  \<^verbatim>\<open>blockblaster_build_clear_mask\<close>. Its five loops, in the order of the source: fill
  \<^verbatim>\<open>full_row\<close>, fill \<^verbatim>\<open>full_col\<close>, count the full rows, count the full columns, write
  the mask. The local arrays start zeroed (\<^verbatim>\<open>= {0}\<close>); the mask is the caller's array,
  of which only the cells the loops reach are written.
\<close>

function build_full_row :: "globals \<Rightarrow> Grid \<Rightarrow> int \<Rightarrow> (int \<Rightarrow> bool) \<Rightarrow> (int \<Rightarrow> bool)" where
  "build_full_row G gr y full_row =
     (if y < GRID_H G then
        build_full_row G gr (y + 1) (full_row(y := is_row_full G (occ gr) y))
      else full_row)"
  by pat_completeness auto
termination
  by (relation "measure (\<lambda>(G, gr, y, full_row). nat (GRID_H G - y))") auto

function build_full_col :: "globals \<Rightarrow> Grid \<Rightarrow> int \<Rightarrow> (int \<Rightarrow> bool) \<Rightarrow> (int \<Rightarrow> bool)" where
  "build_full_col G gr x full_col =
     (if x < GRID_W G then
        build_full_col G gr (x + 1) (full_col(x := is_col_full G (occ gr) x))
      else full_col)"
  by pat_completeness auto
termination
  by (relation "measure (\<lambda>(G, gr, x, full_col). nat (GRID_W G - x))") auto

function count_full_rows :: "globals \<Rightarrow> (int \<Rightarrow> bool) \<Rightarrow> int \<Rightarrow> int \<Rightarrow> int" where
  "count_full_rows G full_row y lines =
     (if y < GRID_H G then
        count_full_rows G full_row (y + 1) (if full_row y then lines + 1 else lines)
      else lines)"
  by pat_completeness auto
termination
  by (relation "measure (\<lambda>(G, full_row, y, lines). nat (GRID_H G - y))") auto

function count_full_cols :: "globals \<Rightarrow> (int \<Rightarrow> bool) \<Rightarrow> int \<Rightarrow> int \<Rightarrow> int" where
  "count_full_cols G full_col x lines =
     (if x < GRID_W G then
        count_full_cols G full_col (x + 1) (if full_col x then lines + 1 else lines)
      else lines)"
  by pat_completeness auto
termination
  by (relation "measure (\<lambda>(G, full_col, x, lines). nat (GRID_W G - x))") auto

function write_mask_x ::
  "globals \<Rightarrow> (int \<Rightarrow> bool) \<Rightarrow> (int \<Rightarrow> bool) \<Rightarrow> int \<Rightarrow> int \<Rightarrow> (int \<Rightarrow> int \<Rightarrow> bool) \<Rightarrow> (int \<Rightarrow> int \<Rightarrow> bool)" where
  "write_mask_x G full_row full_col y x out_mask =
     (if x < GRID_W G then
        write_mask_x G full_row full_col y (x + 1)
          (store2 out_mask y x (full_row y \<or> full_col x))
      else out_mask)"
  by pat_completeness auto
termination
  by (relation "measure (\<lambda>(G, full_row, full_col, y, x, out_mask). nat (GRID_W G - x))") auto

function write_mask_y ::
  "globals \<Rightarrow> (int \<Rightarrow> bool) \<Rightarrow> (int \<Rightarrow> bool) \<Rightarrow> int \<Rightarrow> (int \<Rightarrow> int \<Rightarrow> bool) \<Rightarrow> (int \<Rightarrow> int \<Rightarrow> bool)" where
  "write_mask_y G full_row full_col y out_mask =
     (if y < GRID_H G then
        write_mask_y G full_row full_col (y + 1) (write_mask_x G full_row full_col y 0 out_mask)
      else out_mask)"
  by pat_completeness auto
termination
  by (relation "measure (\<lambda>(G, full_row, full_col, y, out_mask). nat (GRID_H G - y))") auto

text \<open>The result is the returned line count and the mask as the function leaves it.\<close>

definition blockblaster_build_clear_mask ::
  "globals \<Rightarrow> Grid \<Rightarrow> (int \<Rightarrow> int \<Rightarrow> bool) \<Rightarrow> int \<times> (int \<Rightarrow> int \<Rightarrow> bool)" where
  "blockblaster_build_clear_mask G gr out_mask =
     (let full_row = build_full_row G gr 0 (\<lambda>_. False);
          full_col = build_full_col G gr 0 (\<lambda>_. False);
          lines = count_full_rows G full_row 0 0;
          lines = count_full_cols G full_col 0 lines
      in (lines, write_mask_y G full_row full_col 0 out_mask))"

text \<open>
  The spec's words for a complete line: a row is full iff every cell in it is occupied,
  and the same for a column.
\<close>

definition row_fully_occupied :: "globals \<Rightarrow> Grid \<Rightarrow> int \<Rightarrow> bool" where
  "row_fully_occupied G gr y \<longleftrightarrow> (\<forall>x. 0 \<le> x \<and> x < GRID_W G \<longrightarrow> occ gr y x)"

definition col_fully_occupied :: "globals \<Rightarrow> Grid \<Rightarrow> int \<Rightarrow> bool" where
  "col_fully_occupied G gr x \<longleftrightarrow> (\<forall>y. 0 \<le> y \<and> y < GRID_H G \<longrightarrow> occ gr y x)"

subsection \<open>Scoring\<close>

text \<open>
  The arithmetic of \<^verbatim>\<open>blockblaster_score_move\<close> is that of the machine: \<^verbatim>\<open>int\<close> has
  32 bits and \<^verbatim>\<open>long\<close> 64 (the desktop build), both in two's complement, and a result
  out of range wraps around, as the compiled code does where C leaves the overflow
  undefined.
\<close>

definition INT_MAX :: int where "INT_MAX = 2 ^ 31 - 1"
definition INT_MIN :: int where "INT_MIN = - (2 ^ 31)"

definition wrap32 :: "int \<Rightarrow> int" where
  "wrap32 v = (v + 2 ^ 31) mod 2 ^ 32 - 2 ^ 31"

definition wrap64 :: "int \<Rightarrow> int" where
  "wrap64 v = (v + 2 ^ 63) mod 2 ^ 64 - 2 ^ 63"

text \<open>
  The \<^verbatim>\<open>float\<close> nearest to an integer: a significand of 24 bits, halfway cases to the
  even significand. Integers below \<open>2^24\<close> in magnitude are floats themselves.
\<close>

definition float_nearest :: "int \<Rightarrow> int" where
  "float_nearest n =
     (let m = \<bar>n\<bar> in
      if m < 2 ^ 24 then n
      else
        let u = 2 ^ nat (bitlen m - 24);
            q = m div u;
            rm = m mod u;
            q = (if 2 * rm > u \<or> (2 * rm = u \<and> odd q) then q + 1 else q)
        in sgn n * (q * u))"

text \<open>
  The float operations of \<^verbatim>\<open>blockblaster_score_move\<close>. Every float it computes with is
  an integer (a converted \<^verbatim>\<open>int\<close>, the constants 1 and 20, their sums and products), so
  a sum or product is the exact integer result, rounded to the nearest float.
  \<^verbatim>\<open>(int) f\<close> is the value of \<open>f\<close> when it fits an \<^verbatim>\<open>int\<close>; when it does not, C leaves
  the conversion undefined and the x86 conversion instruction yields \<^verbatim>\<open>INT_MIN\<close>.
\<close>

definition float_of_int :: "int \<Rightarrow> real" where
  "float_of_int n = real_of_int (float_nearest n)"

definition float_add :: "real \<Rightarrow> real \<Rightarrow> real" where
  "float_add x y = real_of_int (float_nearest \<lfloor>x + y\<rfloor>)"

definition float_mul :: "real \<Rightarrow> real \<Rightarrow> real" where
  "float_mul x y = real_of_int (float_nearest \<lfloor>x * y\<rfloor>)"

definition int_of_float :: "int \<Rightarrow> int" where
  "int_of_float v = (if INT_MIN \<le> v \<and> v \<le> INT_MAX then v else INT_MIN)"

text \<open>
  C's \<^verbatim>\<open>roundf\<close>: to the nearest integer, halfway cases away from zero. Its result is
  given as the integer it is.
\<close>

definition roundf :: "real \<Rightarrow> int" where
  "roundf v = (if 0 \<le> v then \<lfloor>v + 1 / 2\<rfloor> else \<lceil>v - 1 / 2\<rceil>)"

text \<open>
  \<^verbatim>\<open>blockblaster_score_move\<close>. The result is the updated context, the returned total
  gain, and the values the source stores through \<^verbatim>\<open>out_clear_gain\<close> and \<^verbatim>\<open>out_mult\<close>.
\<close>

definition blockblaster_score_move ::
  "GameContext \<Rightarrow> int \<Rightarrow> int \<Rightarrow> int \<Rightarrow> GameContext \<times> int \<times> int \<times> real" where
  "blockblaster_score_move gm placed lines_cleared cleared_cells =
     (let place_gain = wrap32 (placed * SCORE_PER_PLACED_CELL);
          gained_total = wrap32 (0 + place_gain);
          (gm, gained_total, clear_gain, mult) =
            (if lines_cleared > 0 then
               let gm = gm\<lparr>combo := wrap32 (combo gm + lines_cleared)\<rparr>;
                   gm = (if combo gm > GameContext.highest_combo gm
                         then gm\<lparr>GameContext.highest_combo := combo gm\<rparr> else gm);
                   gm = gm\<lparr>combo_miss := 0\<rparr>;
                   mult = float_add 1 (float_of_int (combo gm));
                   mult = (if mult > MAX_MULTIPLIER then MAX_MULTIPLIER else mult);
                   base_clear = wrap32 (cleared_cells * SCORE_PER_CLEARED_CELL);
                   line_bonus = wrap32 (lines_cleared * SCORE_PER_LINE_BONUS);
                   multi_bonus = (if lines_cleared > 1
                                  then wrap32 (SCORE_MULTI_LINE_BONUS * wrap32 (lines_cleared - 1))
                                  else 0);
                   subtotal = wrap32 (wrap32 (base_clear + line_bonus) + multi_bonus);
                   clear_gain = int_of_float (roundf (float_mul (float_of_int subtotal) mult))
               in (gm, wrap32 (gained_total + clear_gain), clear_gain, mult)
             else if combo gm > 0 then
               let gm = gm\<lparr>combo_miss := wrap32 (combo_miss gm + 1)\<rparr> in
               if combo_miss gm > 3 then
                 (gm\<lparr>combo := 0, combo_miss := 0, last_move_mult := 1\<rparr>, gained_total, 0, 1)
               else (gm, gained_total, 0, last_move_mult gm)
             else (gm\<lparr>last_move_mult := 1\<rparr>, gained_total, 0, 1));
          gm = gm\<lparr>last_move_mult := mult\<rparr>;
          gm = gm\<lparr>GameContext.score := wrap64 (GameContext.score gm + gained_total)\<rparr>;
          gm = (if GameContext.score gm > high_score gm
                then gm\<lparr>high_score := GameContext.score gm\<rparr> else gm)
      in (gm, gained_total, clear_gain, mult))"

text \<open>
  A session's moves: each is the triple \<^verbatim>\<open>(placed_cells, lines_cleared, cleared_cells)\<close>
  that \<^verbatim>\<open>blockblaster_try_drop\<close> passes. \<open>score_moves\<close> lists the context after
  each move.
\<close>

fun score_moves :: "GameContext \<Rightarrow> (int \<times> int \<times> int) list \<Rightarrow> GameContext list" where
  "score_moves gm [] = []"
| "score_moves gm ((placed, lines_cleared, cleared_cells) # ms) =
     (let gm' = fst (blockblaster_score_move gm placed lines_cleared cleared_cells)
      in gm' # score_moves gm' ms)"

subsection \<open>Random source\<close>

text \<open>
  The C library's \<^verbatim>\<open>rand()\<close>: its \<^verbatim>\<open>RAND_MAX\<close> and the values the coming calls
  return, each in \<open>[0, RAND_MAX]\<close>. A call takes the head of the stream.
\<close>

record libc_rand =
  RAND_MAX :: nat
  pending :: "nat stream"

definition rand :: "libc_rand \<Rightarrow> int \<times> libc_rand" where
  "rand rs = (int (shd (pending rs)), rs\<lparr>pending := stl (pending rs)\<rparr>)"

definition blockblaster_irand :: "int \<Rightarrow> int \<Rightarrow> libc_rand \<Rightarrow> int \<times> libc_rand" where
  "blockblaster_irand lo hi rs =
     (if hi \<le> lo then (lo, rs)
      else let (v, rs) = rand rs in (lo + v mod (hi - lo + 1), rs))"

definition blockblaster_frand01 :: "libc_rand \<Rightarrow> real \<times> libc_rand" where
  "blockblaster_frand01 rs =
     (let (v, rs) = rand rs in (real_of_int v / real (RAND_MAX rs), rs))"

definition blockblaster_frand :: "real \<Rightarrow> real \<Rightarrow> libc_rand \<Rightarrow> real \<times> libc_rand" where
  "blockblaster_frand lo hi rs =
     (let (f, rs) = blockblaster_frand01 rs in (lo + (hi - lo) * f, rs))"

text \<open>\<^verbatim>\<open>blockblaster_shuffle_ints\<close>: the loop runs \<open>i\<close> from \<open>n - 1\<close> down to 1.\<close>

function shuffle_ints_i :: "(int \<Rightarrow> int) \<Rightarrow> int \<Rightarrow> libc_rand \<Rightarrow> (int \<Rightarrow> int) \<times> libc_rand" where
  "shuffle_ints_i arr i rs =
     (if i > 0 then
        (case blockblaster_irand 0 i rs of
           (j, rs') \<Rightarrow>
             let tmp = arr i;
                 arr = arr(i := arr j);
                 arr = arr(j := tmp)
             in shuffle_ints_i arr (i - 1) rs')
      else (arr, rs))"
  by pat_completeness auto
termination
  by (relation "measure (\<lambda>(arr, i, rs). nat i)") auto

definition blockblaster_shuffle_ints :: "(int \<Rightarrow> int) \<Rightarrow> int \<Rightarrow> libc_rand \<Rightarrow> (int \<Rightarrow> int) \<times> libc_rand" where
  "blockblaster_shuffle_ints arr n rs = shuffle_ints_i arr (n - 1) rs"

subsection \<open>Bag randomizer\<close>

text \<open>
  \<^verbatim>\<open>weighted_shape_index\<close>: the first loop fills \<^verbatim>\<open>weights\<close> and sums them, the second
  returns the first index whose cumulative weight exceeds the draw.
\<close>

function weights_loop :: "real \<Rightarrow> int \<Rightarrow> (int \<Rightarrow> real) \<Rightarrow> real \<Rightarrow> (int \<Rightarrow> real) \<times> real" where
  "weights_loop t i weights total_w =
     (if i < SHAPES_COUNT then
        let d = (if SHAPES_COUNT > 1 then real_of_int i / real_of_int (SHAPES_COUNT - 1) else 1 / 2);
            wt = MIN_DIFFICULTY_WEIGHT +
                 (1 - MIN_DIFFICULTY_WEIGHT) * ((1 - d) * (1 - t) + d * t)
        in weights_loop t (i + 1) (weights(i := wt)) (total_w + wt)
      else (weights, total_w))"
  by pat_completeness auto
termination
  by (relation "measure (\<lambda>(t, i, weights, total_w). nat (SHAPES_COUNT - i))") auto

function pick_loop :: "(int \<Rightarrow> real) \<Rightarrow> real \<Rightarrow> int \<Rightarrow> real \<Rightarrow> int" where
  "pick_loop weights rv i acc_w =
     (if i < SHAPES_COUNT then
        let acc_w = acc_w + weights i in
        if rv < acc_w then i else pick_loop weights rv (i + 1) acc_w
      else SHAPES_COUNT - 1)"
  by pat_completeness auto
termination
  by (relation "measure (\<lambda>(weights, rv, i, acc_w). nat (SHAPES_COUNT - i))") auto

definition weighted_shape_index :: "int \<Rightarrow> libc_rand \<Rightarrow> int \<times> libc_rand" where
  "weighted_shape_index sc rs =
     (let t = real_of_int sc / real_of_int DIFFICULTY_MAX_SCORE;
          t = (if t < 0 then 0 else t);
          t = (if t > 1 then 1 else t);
          (weights, total_w) = weights_loop t 0 (\<lambda>_. 0) 0;
          (rv, rs) = blockblaster_frand 0 total_w rs
      in (pick_loop weights rv 0 0, rs))"

text \<open>\<^verbatim>\<open>bag_refill\<close>: the fill loop reads \<^verbatim>\<open>gm->bag_len\<close> and \<^verbatim>\<open>gm->score\<close> at each turn.\<close>

function bag_refill_i :: "GameContext \<Rightarrow> int \<Rightarrow> libc_rand \<Rightarrow> GameContext \<times> libc_rand" where
  "bag_refill_i gm i rs =
     (if i < bag_len gm then
        (case weighted_shape_index (GameContext.score gm) rs of
           (si, rs') \<Rightarrow> bag_refill_i (gm\<lparr>bag := (bag gm)(i := si)\<rparr>) (i + 1) rs')
      else (gm, rs))"
  by pat_completeness auto
termination
  by (relation "measure (\<lambda>(gm, i, rs). nat (bag_len gm - i))") auto

definition bag_refill :: "GameContext \<Rightarrow> libc_rand \<Rightarrow> GameContext \<times> libc_rand" where
  "bag_refill gm rs =
     (let gm = gm\<lparr>bag_len := BAG_SIZE\<rparr>;
          (gm, rs) = bag_refill_i gm 0 rs;
          (arr, rs) = blockblaster_shuffle_ints (bag gm) (bag_len gm) rs;
          gm = gm\<lparr>bag := arr\<rparr>;
          gm = gm\<lparr>bag_pos := 0\<rparr>
      in (gm, rs))"

text \<open>
  \<^verbatim>\<open>bag_next_shape_index\<close>: the returned index, the context and the random source after
  the call.
\<close>

definition bag_next_shape_index :: "GameContext \<Rightarrow> libc_rand \<Rightarrow> int \<times> GameContext \<times> libc_rand" where
  "bag_next_shape_index gm rs =
     (let (gm, rs) = (if bag_len gm \<le> 0 \<or> bag_pos gm \<ge> bag_len gm then bag_refill gm rs
                      else (gm, rs))
      in (bag gm (bag_pos gm), gm\<lparr>bag_pos := bag_pos gm + 1\<rparr>, rs))"

text \<open>
  Draws from the bag while the game goes on: before each draw the score may have become
  any value, here the next element of the list. The result lists the indices drawn.
\<close>

fun bag_draws :: "int list \<Rightarrow> GameContext \<Rightarrow> libc_rand \<Rightarrow> int list \<times> GameContext \<times> libc_rand" where
  "bag_draws [] gm rs = ([], gm, rs)"
| "bag_draws (sc # scs) gm rs =
     (case bag_next_shape_index (gm\<lparr>GameContext.score := sc\<rparr>) rs of
        (si, gm', rs') \<Rightarrow>
          (case bag_draws scs gm' rs' of (sis, gm'', rs'') \<Rightarrow> (si # sis, gm'', rs'')))"

subsection \<open>High-score table\<close>

text \<open>
  \<^verbatim>\<open>blockblaster_insert_high_score\<close>. The search loop leaves \<^verbatim>\<open>pos\<close> at the first index
  whose score the new one exceeds, or at \<^verbatim>\<open>high_score_count\<close>; the shift loop runs from
  \<^verbatim>\<open>new_count - 1\<close> down to \<^verbatim>\<open>pos + 1\<close>. \<^verbatim>\<open>snprintf\<close> into the six bytes of
  \<^verbatim>\<open>name\<close> keeps at most \<^verbatim>\<open>MAX_PLAYER_NAME_LEN\<close> characters.
\<close>

function find_insert_pos :: "GameContext \<Rightarrow> int \<Rightarrow> int \<Rightarrow> int" where
  "find_insert_pos gm sc i =
     (if i < high_score_count gm then
        (if sc > HighScoreEntry.score (high_scores gm i) then i
         else find_insert_pos gm sc (i + 1))
      else high_score_count gm)"
  by pat_completeness auto
termination
  by (relation "measure (\<lambda>(gm, sc, i). nat (high_score_count gm - i))") auto

function shift_entries_down :: "(int \<Rightarrow> HighScoreEntry) \<Rightarrow> int \<Rightarrow> int \<Rightarrow> (int \<Rightarrow> HighScoreEntry)" where
  "shift_entries_down hs i pos =
     (if i > pos then shift_entries_down (hs(i := hs (i - 1))) (i - 1) pos else hs)"
  by pat_completeness auto
termination
  by (relation "measure (\<lambda>(hs, i, pos). nat (i - pos))") auto

definition blockblaster_insert_high_score ::
  "globals \<Rightarrow> GameContext \<Rightarrow> int \<Rightarrow> int \<Rightarrow> string \<Rightarrow> GameContext" where
  "blockblaster_insert_high_score G gm sc cmb nm =
     (let pos = find_insert_pos gm sc 0 in
      if pos \<ge> MAX_HIGH_SCORES then gm
      else
        let new_count = high_score_count gm + 1;
            new_count = (if new_count > MAX_HIGH_SCORES then MAX_HIGH_SCORES else new_count);
            hs = shift_entries_down (high_scores gm) (new_count - 1) pos;
            hs = hs(pos := (hs pos)\<lparr>grid_w := GRID_W G, grid_h := GRID_H G,
                                     tray_count := PIECES_PER_SET G,
                                     HighScoreEntry.score := sc,
                                     HighScoreEntry.highest_combo := cmb,
                                     name := take MAX_PLAYER_NAME_LEN nm\<rparr>);
            gm = gm\<lparr>high_scores := hs\<rparr>;
            gm = gm\<lparr>high_score_count := new_count\<rparr>
        in gm\<lparr>high_score := HighScoreEntry.score (high_scores gm 0)\<rparr>)"

text \<open>The scores of the valid entries, in table order.\<close>

definition table_scores :: "GameContext \<Rightarrow> int list" where
  "table_scores gm =
     map (\<lambda>i. HighScoreEntry.score (high_scores gm i)) [0..high_score_count gm - 1]"

subsection \<open>Reading the persisted records\<close>

text \<open>
  An open file is the text still to be read; a file that cannot be opened is \<open>None\<close>.
  \<^verbatim>\<open>fscanf\<close>'s \<^verbatim>\<open>%d\<close> and \<^verbatim>\<open>%ld\<close> skip white space, then read an optional sign and at
  least one decimal digit; \<^verbatim>\<open>%5s\<close> skips white space, then reads up to five characters
  that are not white space. A blank in the format skips white space, which the next
  conversion does anyway. The value read is not reduced to the range of \<^verbatim>\<open>int\<close>.
\<close>

definition isspace :: "char \<Rightarrow> bool" where
  "isspace c \<longleftrightarrow> c = CHR '' '' \<or> (9 \<le> (of_char c :: nat) \<and> (of_char c :: nat) \<le> 13)"

definition isdigit :: "char \<Rightarrow> bool" where
  "isdigit c \<longleftrightarrow> 48 \<le> (of_char c :: nat) \<and> (of_char c :: nat) \<le> 57"

fun scan_digits :: "int \<Rightarrow> string \<Rightarrow> int \<times> string" where
  "scan_digits v [] = (v, [])"
| "scan_digits v (c # cs) =
     (if isdigit c then scan_digits (10 * v + (of_char c - 48)) cs else (v, c # cs))"

definition scan_d :: "string \<Rightarrow> (int \<times> string) option" where
  "scan_d inp =
     (case dropWhile isspace inp of
        [] \<Rightarrow> None
      | c # cs \<Rightarrow>
          if c = CHR ''-'' \<or> c = CHR ''+'' then
            (case cs of
               [] \<Rightarrow> None
             | d # _ \<Rightarrow>
                 if isdigit d then
                   (case scan_digits 0 cs of
                      (v, inp') \<Rightarrow> Some (if c = CHR ''-'' then - v else v, inp'))
                 else None)
          else if isdigit c then Some (scan_digits 0 (c # cs))
          else None)"

definition scan_s :: "nat \<Rightarrow> string \<Rightarrow> (string \<times> string) option" where
  "scan_s width inp =
     (case dropWhile isspace inp of
        [] \<Rightarrow> None
      | c # cs \<Rightarrow>
          let tok = takeWhile (\<lambda>ch. \<not> isspace ch) (take width (c # cs))
          in Some (tok, drop (length tok) (c # cs)))"

text \<open>
  A run of up to \<open>n\<close> integer conversions, as at the start of each format string of the
  source: it stops at the first conversion that fails. The values are those assigned, in
  order, so their number is what \<^verbatim>\<open>fscanf\<close> returns when no later conversion succeeds (the
  source compares the return value with a positive number only, so \<^verbatim>\<open>EOF\<close> and 0 are
  alike). The text returned is where reading goes on after the last success; the source
  never reads on after a failure without an \<^verbatim>\<open>fseek\<close>.
\<close>

fun fscanf_ints :: "nat \<Rightarrow> string \<Rightarrow> int list \<times> string" where
  "fscanf_ints 0 inp = ([], inp)"
| "fscanf_ints (Suc n) inp =
     (case scan_d inp of
        None \<Rightarrow> ([], inp)
      | Some (v, inp') \<Rightarrow> (case fscanf_ints n inp' of (vs, inp'') \<Rightarrow> (v # vs, inp'')))"

text \<open>
  \<^verbatim>\<open>blockblaster_load_settings\<close>, the desktop branch (the Android branch reads the file
  into a buffer and parses it with the same format). The result is the pair
  \<^verbatim>\<open>(*tray_count, *grid_size)\<close>.
\<close>

definition blockblaster_load_settings :: "string option \<Rightarrow> int \<times> int" where
  "blockblaster_load_settings settings_file =
     (let tray_count = 4; grid_size = 10 in
      case settings_file of
        None \<Rightarrow> (tray_count, grid_size)
      | Some f \<Rightarrow>
          let (tray_count, grid_size) =
                (case fscanf_ints 2 f of
                   ([tc, gs], _) \<Rightarrow> (tc, gs)
                 | _ \<Rightarrow> (tray_count, grid_size));
              tray_count = (if tray_count < 1 then 1 else tray_count);
              tray_count = (if tray_count > 4 then 4 else tray_count);
              grid_size = (if grid_size \<noteq> 10 \<and> grid_size \<noteq> 15 \<and> grid_size \<noteq> 20
                           then 10 else grid_size)
          in (tray_count, grid_size))"

text \<open>
  \<^verbatim>\<open>blockblaster_load_high_scores\<close>, the desktop branch. The two files of the save
  directory: \<^verbatim>\<open>SCORES_FILENAME\<close> and the legacy \<^verbatim>\<open>HIGHSCORE_FILENAME\<close>.
\<close>

record save_dir =
  scores_file :: "string option"
  highscore_file :: "string option"

text \<open>What \<^verbatim>\<open>memset(gm->high_scores, 0, ...)\<close> leaves in every entry.\<close>

definition zero_entry :: HighScoreEntry where
  "zero_entry = \<lparr>grid_w = 0, grid_h = 0, tray_count = 0, score = 0, highest_combo = 0, name = []\<rparr>"

text \<open>
  One turn of the entry loop at index \<open>i\<close>: the new format first, then, from the saved
  position, the old one. Each conversion that succeeds assigns its target, also when the
  call as a whole falls short. The result is the context, the text left, and whether
  the loop goes on (\<open>False\<close> is the \<^verbatim>\<open>break\<close>).
\<close>

definition read_entry :: "GameContext \<Rightarrow> string \<Rightarrow> int \<Rightarrow> GameContext \<times> string \<times> bool" where
  "read_entry gm f i =
     (let saved_pos = f;
          set_score = (\<lambda>gm v. gm\<lparr>high_scores :=
                         (high_scores gm)(i := (high_scores gm i)\<lparr>HighScoreEntry.score := v\<rparr>)\<rparr>);
          set_combo = (\<lambda>gm v. gm\<lparr>high_scores :=
                         (high_scores gm)(i := (high_scores gm i)\<lparr>HighScoreEntry.highest_combo := v\<rparr>)\<rparr>);
          set_grid = (\<lambda>gm gw gh tc. gm\<lparr>high_scores :=
                         (high_scores gm)(i := (high_scores gm i)\<lparr>grid_w := gw, grid_h := gh,
                                                                   tray_count := tc\<rparr>)\<rparr>);
          set_name = (\<lambda>gm nm. gm\<lparr>high_scores :=
                         (high_scores gm)(i := (high_scores gm i)\<lparr>name := take MAX_PLAYER_NAME_LEN nm\<rparr>)\<rparr>);
          (vals, f1) = fscanf_ints 5 f;
          gm = (if length vals \<ge> 4 then set_score gm (vals ! 3) else gm);
          gm = (if length vals \<ge> 5 then set_combo gm (vals ! 4) else gm)
      in case (if length vals = 5 then scan_s 5 f1 else None) of
           Some (nm, f2) \<Rightarrow>
             (set_name (set_grid gm (vals ! 0) (vals ! 1) (vals ! 2)) nm, f2, True)
         | None \<Rightarrow>
             let (vals, f1) = fscanf_ints 2 saved_pos;
                 gm = (if length vals \<ge> 1 then set_score gm (vals ! 0) else gm);
                 gm = (if length vals \<ge> 2 then set_combo gm (vals ! 1) else gm)
             in if length vals < 2 then (gm, f1, False)
                else (case scan_s 5 f1 of
                        Some (nm, f2) \<Rightarrow> (set_name (set_grid gm 10 10 4) nm, f2, True)
                      | None \<Rightarrow> (set_name (set_grid gm 10 10 4) [], f1, True)))"

function read_entries :: "GameContext \<Rightarrow> string \<Rightarrow> int \<Rightarrow> int \<Rightarrow> GameContext" where
  "read_entries gm f i cnt =
     (if i < cnt then
        (case read_entry gm f i of
           (gm', f', go_on) \<Rightarrow> if go_on then read_entries gm' f' (i + 1) cnt else gm')
      else gm)"
  by pat_completeness auto
termination
  by (relation "measure (\<lambda>(gm, f, i, cnt). nat (cnt - i))") auto

text \<open>The loop after the label \<^verbatim>\<open>done\<close> that clamps the loaded values.\<close>

function clamp_entries :: "GameContext \<Rightarrow> int \<Rightarrow> GameContext" where
  "clamp_entries gm i =
     (if i < high_score_count gm then
        let e = high_scores gm i;
            e = (if HighScoreEntry.score e < 0 then e\<lparr>HighScoreEntry.score := 0\<rparr> else e);
            e = (if HighScoreEntry.highest_combo e < 0
                 then e\<lparr>HighScoreEntry.highest_combo := 0\<rparr> else e);
            e = (if name e = [] then e\<lparr>name := ''PLAYR''\<rparr> else e)
        in clamp_entries (gm\<lparr>high_scores := (high_scores gm)(i := e)\<rparr>) (i + 1)
      else gm)"
  by pat_completeness auto
termination
  by (relation "measure (\<lambda>(gm, i). nat (high_score_count gm - i))") auto

definition load_done :: "GameContext \<Rightarrow> GameContext" where
  "load_done gm =
     (let gm = (if high_score_count gm > 0
                then gm\<lparr>high_score := HighScoreEntry.score (high_scores gm 0)\<rparr> else gm)
      in clamp_entries gm 0)"

definition blockblaster_load_high_scores :: "save_dir \<Rightarrow> GameContext \<Rightarrow> GameContext" where
  "blockblaster_load_high_scores dir gm =
     (let gm = gm\<lparr>high_score_count := 0\<rparr>;
          gm = gm\<lparr>high_scores := (\<lambda>_. zero_entry)\<rparr>;
          gm = gm\<lparr>high_score := 0\<rparr>
      in case scores_file dir of
           None \<Rightarrow>
             (case highscore_file dir of
                None \<Rightarrow> gm
              | Some f \<Rightarrow>
                  let hs = 0; hc = 0;
                      (vals, _) = fscanf_ints 2 f;
                      hs = (if length vals \<ge> 1 then vals ! 0 else hs);
                      hc = (if length vals \<ge> 2 then vals ! 1 else hc);
                      gm = (if length vals \<ge> 1 then
                              gm\<lparr>high_score_count := 1,
                                 high_scores := (high_scores gm)
                                   (0 := (high_scores gm 0)\<lparr>HighScoreEntry.score := hs,
                                           HighScoreEntry.highest_combo := hc,
                                           name := ''PLAYR''\<rparr>)\<rparr>
                            else gm)
                  in load_done gm)
         | Some f \<Rightarrow>
             (case fscanf_ints 1 f of
                ([n], f') \<Rightarrow>
                  let cnt = (if n < 0 then 0 else n);
                      cnt = (if cnt > MAX_HIGH_SCORES then MAX_HIGH_SCORES else cnt);
                      gm = gm\<lparr>high_score_count := cnt\<rparr>
                  in load_done (read_entries gm f' 0 cnt)
              | _ \<Rightarrow> gm))"

subsection \<open>Initial values\<close>

text \<open>
  The initialisers of the globals in \<^verbatim>\<open>blockblaster_game.c\<close>, and the zeroed context of
  \<^verbatim>\<open>GameContext gm = {0};\<close> in \<^verbatim>\<open>main\<close> with its zeroed grid.
\<close>

definition initial_globals :: globals where
  "initial_globals = \<lparr>GRID_W = 10, GRID_H = 10, PIECES_PER_SET = 4\<rparr>"

definition zero_theme :: Theme where
  "zero_theme = \<lparr>fill = Rgba 0 0 0 0, stroke = Rgba 0 0 0 0\<rparr>"

definition zero_grid :: Grid where
  "zero_grid = \<lparr>occ = (\<lambda>_ _. False), cell_theme = (\<lambda>_ _. zero_theme), has_theme = (\<lambda>_ _. False)\<rparr>"

definition zero_context :: GameContext where
  "zero_context =
     \<lparr>score = 0, high_score = 0, combo = 0, highest_combo = 0, last_move_mult = 0,
      combo_miss = 0, high_scores = (\<lambda>_. zero_entry), high_score_count = 0,
      bag = (\<lambda>_. 0), bag_len = 0, bag_pos = 0\<rparr>"

text \<open>The cell \<open>(x, y)\<close> lies inside the current \<^verbatim>\<open>GRID_W\<close> by \<^verbatim>\<open>GRID_H\<close> grid.\<close>

definition in_grid :: "globals \<Rightarrow> int \<Rightarrow> int \<Rightarrow> bool" where
  "in_grid G x y \<longleftrightarrow> 0 \<le> x \<and> x < GRID_W G \<and> 0 \<le> y \<and> y < GRID_H G"

section \<open>Properties\<close>

declare can_place_at_sx.simps [simp del]
declare can_place_at_sy.simps [simp del]
declare place_shape_sx.simps [simp del]
declare place_shape_sy.simps [simp del]

subsection \<open>Placement\<close>

lemma can_place_at_sx_iff:
  "can_place_at_sx G gr s gx gy sy sx0 \<longleftrightarrow>
     (\<forall>sx. sx0 \<le> sx \<and> blockblaster_shape_cell s sx sy \<longrightarrow>
        in_grid G (gx + sx) (gy + sy) \<and> \<not> occ gr (gy + sy) (gx + sx))"
proof (induction G gr s gx gy sy sx0 rule: can_place_at_sx.induct)
  case (1 G gr s gx gy sy sx)
  have cell_bound: "\<And>k. blockblaster_shape_cell s k sy \<Longrightarrow> k < w s"
    by (simp add: blockblaster_shape_cell_def split: if_splits)
  show ?case
  proof (cases "sx < w s")
    case False
    then show ?thesis
      using cell_bound by (subst can_place_at_sx.simps) force
  next
    case True
    note lt = this
    show ?thesis
    proof (cases "blockblaster_shape_cell s sx sy")
      case False
      have "can_place_at_sx G gr s gx gy sy sx = can_place_at_sx G gr s gx gy sy (sx + 1)"
        using lt False by (subst can_place_at_sx.simps) simp
      also have "\<dots> = (\<forall>k. sx + 1 \<le> k \<and> blockblaster_shape_cell s k sy \<longrightarrow>
          in_grid G (gx + k) (gy + sy) \<and> \<not> occ gr (gy + sy) (gx + k))"
        using "1.IH"(1) [OF lt False] .
      also have "\<dots> = (\<forall>k. sx \<le> k \<and> blockblaster_shape_cell s k sy \<longrightarrow>
          in_grid G (gx + k) (gy + sy) \<and> \<not> occ gr (gy + sy) (gx + k))"
        using False by (metis add1_zle_eq order_le_less)
      finally show ?thesis .
    next
      case filled: True
      show ?thesis
      proof (cases "in_grid G (gx + sx) (gy + sy) \<and> \<not> occ gr (gy + sy) (gx + sx)")
        case False
        have "\<not> can_place_at_sx G gr s gx gy sy sx"
          using lt filled False
          by (subst can_place_at_sx.simps) (auto simp: in_grid_def Let_def)
        moreover have "\<not> (\<forall>k. sx \<le> k \<and> blockblaster_shape_cell s k sy \<longrightarrow>
          in_grid G (gx + k) (gy + sy) \<and> \<not> occ gr (gy + sy) (gx + k))"
          using filled False by (meson order_refl)
        ultimately show ?thesis by blast
      next
        case ok: True
        then have g1: "\<not> (gx + sx < 0 \<or> gy + sy < 0 \<or> GRID_W G \<le> gx + sx \<or> GRID_H G \<le> gy + sy)"
          and g2: "\<not> occ gr (gy + sy) (gx + sx)"
          by (auto simp: in_grid_def)
        have "can_place_at_sx G gr s gx gy sy sx = can_place_at_sx G gr s gx gy sy (sx + 1)"
          using lt filled g1 g2 by (subst can_place_at_sx.simps) (simp add: Let_def)
        also have "\<dots> = (\<forall>k. sx + 1 \<le> k \<and> blockblaster_shape_cell s k sy \<longrightarrow>
          in_grid G (gx + k) (gy + sy) \<and> \<not> occ gr (gy + sy) (gx + k))"
          using "1.IH"(2) [OF lt _ refl refl g1 g2] filled by simp
        also have "\<dots> = (\<forall>k. sx \<le> k \<and> blockblaster_shape_cell s k sy \<longrightarrow>
          in_grid G (gx + k) (gy + sy) \<and> \<not> occ gr (gy + sy) (gx + k))"
          using ok by (metis add1_zle_eq order_le_less)
        finally show ?thesis .
      qed
    qed
  qed
qed

lemma can_place_at_sy_iff:
  "can_place_at_sy G gr s gx gy sy0 \<longleftrightarrow>
     (\<forall>sx sy. sy0 \<le> sy \<and> blockblaster_shape_cell s sx sy \<longrightarrow>
        in_grid G (gx + sx) (gy + sy) \<and> \<not> occ gr (gy + sy) (gx + sx))"
proof (induction G gr s gx gy sy0 rule: can_place_at_sy.induct)
  case (1 G gr s gx gy sy)
  have row_bound: "\<And>j k. blockblaster_shape_cell s j k \<Longrightarrow> k < h s \<and> 0 \<le> j"
    by (simp add: blockblaster_shape_cell_def split: if_splits)
  let ?ok = "\<lambda>j k. in_grid G (gx + j) (gy + k) \<and> \<not> occ gr (gy + k) (gx + j)"
  show ?case
  proof (cases "sy < h s")
    case False
    then show ?thesis
      using row_bound by (subst can_place_at_sy.simps) force
  next
    case lt: True
    have row: "can_place_at_sx G gr s gx gy sy 0 \<longleftrightarrow>
        (\<forall>j. blockblaster_shape_cell s j sy \<longrightarrow> ?ok j sy)"
      using row_bound by (auto simp: can_place_at_sx_iff)
    show ?thesis
    proof (cases "can_place_at_sx G gr s gx gy sy 0")
      case False
      then have "\<not> can_place_at_sy G gr s gx gy sy"
        using lt by (subst can_place_at_sy.simps) simp
      moreover have "\<not> (\<forall>j k. sy \<le> k \<and> blockblaster_shape_cell s j k \<longrightarrow> ?ok j k)"
        using False row by (meson order_refl)
      ultimately show ?thesis by blast
    next
      case True
      have "can_place_at_sy G gr s gx gy sy = can_place_at_sy G gr s gx gy (sy + 1)"
        using lt True by (subst can_place_at_sy.simps) simp
      also have "\<dots> = (\<forall>j k. sy + 1 \<le> k \<and> blockblaster_shape_cell s j k \<longrightarrow> ?ok j k)"
        using "1.IH" [OF lt True] .
      also have "\<dots> = (\<forall>j k. sy \<le> k \<and> blockblaster_shape_cell s j k \<longrightarrow> ?ok j k)"
        using True row by (metis add1_zle_eq order_le_less)
      finally show ?thesis .
    qed
  qed
qed

lemma place_shape_sx_occ:
  "occ (place_shape_sx G s gx gy th sy sx0 gr) y x \<longleftrightarrow>
     occ gr y x \<or>
     (y = gy + sy \<and> sx0 \<le> x - gx \<and> blockblaster_shape_cell s (x - gx) sy \<and> in_grid G x y)"
proof (induction G s gx gy th sy sx0 gr rule: place_shape_sx.induct)
  case (1 G s gx gy theme sy sx gr)
  show ?case
    apply (subst place_shape_sx.simps)
    using 1
    apply (auto simp: Let_def store2_def in_grid_def blockblaster_shape_cell_def split: if_splits)
    done
qed

lemma place_shape_sx_cell_theme:
  "cell_theme (place_shape_sx G s gx gy th sy sx0 gr) y x =
     (if y = gy + sy \<and> sx0 \<le> x - gx \<and> blockblaster_shape_cell s (x - gx) sy \<and> in_grid G x y
      then th else cell_theme gr y x)"
proof (induction G s gx gy th sy sx0 gr rule: place_shape_sx.induct)
  case (1 G s gx gy theme sy sx gr)
  show ?case
    apply (subst place_shape_sx.simps)
    using 1
    apply (auto simp: Let_def store2_def in_grid_def blockblaster_shape_cell_def split: if_splits)
    done
qed

lemma place_shape_sx_has_theme:
  "has_theme (place_shape_sx G s gx gy th sy sx0 gr) y x \<longleftrightarrow>
     has_theme gr y x \<or>
     (y = gy + sy \<and> sx0 \<le> x - gx \<and> blockblaster_shape_cell s (x - gx) sy \<and> in_grid G x y)"
proof (induction G s gx gy th sy sx0 gr rule: place_shape_sx.induct)
  case (1 G s gx gy theme sy sx gr)
  show ?case
    apply (subst place_shape_sx.simps)
    using 1
    apply (auto simp: Let_def store2_def in_grid_def blockblaster_shape_cell_def split: if_splits)
    done
qed

lemma shape_cell_nonneg:
  "blockblaster_shape_cell s j k \<Longrightarrow> 0 \<le> j \<and> 0 \<le> k \<and> j < w s \<and> k < h s"
  by (simp add: blockblaster_shape_cell_def split: if_splits)

lemma place_shape_sy_occ:
  "occ (place_shape_sy G s gx gy th sy0 gr) y x \<longleftrightarrow>
     occ gr y x \<or>
     (sy0 \<le> y - gy \<and> blockblaster_shape_cell s (x - gx) (y - gy) \<and> in_grid G x y)"
proof (induction G s gx gy th sy0 gr rule: place_shape_sy.induct)
  case (1 G s gx gy theme sy gr)
  show ?case
  proof (cases "sy < h s")
    case False
    then show ?thesis
      using shape_cell_nonneg [of s "x - gx" "y - gy"]
      by (subst place_shape_sy.simps) auto
  next
    case True
    have "occ (place_shape_sy G s gx gy theme sy gr) y x =
          occ (place_shape_sy G s gx gy theme (sy + 1) (place_shape_sx G s gx gy theme sy 0 gr)) y x"
      using True by (subst place_shape_sy.simps) simp
    also have "\<dots> = (occ (place_shape_sx G s gx gy theme sy 0 gr) y x \<or>
         (sy + 1 \<le> y - gy \<and> blockblaster_shape_cell s (x - gx) (y - gy) \<and> in_grid G x y))"
      using "1.IH" [OF True] .
    also have "\<dots> = (occ gr y x \<or>
         (sy \<le> y - gy \<and> blockblaster_shape_cell s (x - gx) (y - gy) \<and> in_grid G x y))"
    proof (cases "y = gy + sy")
      case True
      then show ?thesis
        by (auto simp: place_shape_sx_occ dest: shape_cell_nonneg)
    next
      case False
      then have "sy + 1 \<le> y - gy \<longleftrightarrow> sy \<le> y - gy"
        by auto
      with False show ?thesis
        by (simp add: place_shape_sx_occ)
    qed
    finally show ?thesis .
  qed
qed

lemma place_shape_sy_cell_theme:
  "cell_theme (place_shape_sy G s gx gy th sy0 gr) y x =
     (if sy0 \<le> y - gy \<and> blockblaster_shape_cell s (x - gx) (y - gy) \<and> in_grid G x y
      then th else cell_theme gr y x)"
proof (induction G s gx gy th sy0 gr rule: place_shape_sy.induct)
  case (1 G s gx gy theme sy gr)
  show ?case
  proof (cases "sy < h s")
    case False
    then show ?thesis
      using shape_cell_nonneg [of s "x - gx" "y - gy"]
      by (subst place_shape_sy.simps) auto
  next
    case True
    have "cell_theme (place_shape_sy G s gx gy theme sy gr) y x =
          cell_theme (place_shape_sy G s gx gy theme (sy + 1) (place_shape_sx G s gx gy theme sy 0 gr)) y x"
      using True by (subst place_shape_sy.simps) simp
    also have "\<dots> = (if sy + 1 \<le> y - gy \<and> blockblaster_shape_cell s (x - gx) (y - gy) \<and> in_grid G x y
         then theme else cell_theme (place_shape_sx G s gx gy theme sy 0 gr) y x)"
      using "1.IH" [OF True] .
    also have "\<dots> = (if sy \<le> y - gy \<and> blockblaster_shape_cell s (x - gx) (y - gy) \<and> in_grid G x y
         then theme else cell_theme gr y x)"
    proof (cases "y = gy + sy")
      case True
      then show ?thesis
        by (auto simp: place_shape_sx_cell_theme dest: shape_cell_nonneg)
    next
      case False
      then have "sy + 1 \<le> y - gy \<longleftrightarrow> sy \<le> y - gy"
        by auto
      with False show ?thesis
        by (simp add: place_shape_sx_cell_theme)
    qed
    finally show ?thesis .
  qed
qed

lemma place_shape_sy_has_theme:
  "has_theme (place_shape_sy G s gx gy th sy0 gr) y x \<longleftrightarrow>
     has_theme gr y x \<or>
     (sy0 \<le> y - gy \<and> blockblaster_shape_cell s (x - gx) (y - gy) \<and> in_grid G x y)"
proof (induction G s gx gy th sy0 gr rule: place_shape_sy.induct)
  case (1 G s gx gy theme sy gr)
  show ?case
  proof (cases "sy < h s")
    case False
    then show ?thesis
      using shape_cell_nonneg [of s "x - gx" "y - gy"]
      by (subst place_shape_sy.simps) auto
  next
    case True
    have "has_theme (place_shape_sy G s gx gy theme sy gr) y x =
          has_theme (place_shape_sy G s gx gy theme (sy + 1) (place_shape_sx G s gx gy theme sy 0 gr)) y x"
      using True by (subst place_shape_sy.simps) simp
    also have "\<dots> = (has_theme (place_shape_sx G s gx gy theme sy 0 gr) y x \<or>
         (sy + 1 \<le> y - gy \<and> blockblaster_shape_cell s (x - gx) (y - gy) \<and> in_grid G x y))"
      using "1.IH" [OF True] .
    also have "\<dots> = (has_theme gr y x \<or>
         (sy \<le> y - gy \<and> blockblaster_shape_cell s (x - gx) (y - gy) \<and> in_grid G x y))"
    proof (cases "y = gy + sy")
      case True
      then show ?thesis
        by (auto simp: place_shape_sx_has_theme dest: shape_cell_nonneg)
    next
      case False
      then have "sy + 1 \<le> y - gy \<longleftrightarrow> sy \<le> y - gy"
        by auto
      with False show ?thesis
        by (simp add: place_shape_sx_has_theme)
    qed
    finally show ?thesis .
  qed
qed

lemma place_shape_occ:
  "occ (blockblaster_place_shape G gr s gx gy th) y x \<longleftrightarrow>
     occ gr y x \<or> (blockblaster_shape_cell s (x - gx) (y - gy) \<and> in_grid G x y)"
  using shape_cell_nonneg [of s "x - gx" "y - gy"]
  by (auto simp: blockblaster_place_shape_def place_shape_sy_occ)

lemma can_place_at_iff:
  "blockblaster_can_place_at G gr s gx gy \<longleftrightarrow>
     (\<forall>sx sy. blockblaster_shape_cell s sx sy \<longrightarrow>
        in_grid G (gx + sx) (gy + sy) \<and> \<not> occ gr (gy + sy) (gx + sx))"
  using shape_cell_nonneg [of s]
  by (auto simp: blockblaster_can_place_at_def can_place_at_sy_iff)

text \<open>
  Claim C1 (placement soundness). For every grid, shape and offset,
  \<^verbatim>\<open>blockblaster_can_place_at\<close> is true if and only if every filled cell of the shape,
  moved by the offset, lies inside the \<^verbatim>\<open>GRID_W\<close> by \<^verbatim>\<open>GRID_H\<close> grid and on a cell
  that is not occupied. And once \<^verbatim>\<open>blockblaster_place_shape\<close> has stamped a shape at an
  offset where it could be placed, \<^verbatim>\<open>blockblaster_can_place_at\<close> at the same offset is
  false for every shape that has a filled cell where the stamped shape has one, the
  stamped shape itself among them.
\<close>

theorem placement_soundness:
  "(blockblaster_can_place_at G gr s gx gy \<longleftrightarrow>
      (\<forall>sx sy. blockblaster_shape_cell s sx sy \<longrightarrow>
         in_grid G (gx + sx) (gy + sy) \<and> \<not> occ gr (gy + sy) (gx + sx)))
   \<and> (blockblaster_can_place_at G gr s gx gy \<and> blockblaster_shape_cell s sx sy
        \<and> blockblaster_shape_cell s' sx sy \<longrightarrow>
        \<not> blockblaster_can_place_at G (blockblaster_place_shape G gr s gx gy th) s' gx gy)"
proof (intro conjI impI)
  show "blockblaster_can_place_at G gr s gx gy \<longleftrightarrow>
      (\<forall>sx sy. blockblaster_shape_cell s sx sy \<longrightarrow>
         in_grid G (gx + sx) (gy + sy) \<and> \<not> occ gr (gy + sy) (gx + sx))"
    by (rule can_place_at_iff)
next
  assume a: "blockblaster_can_place_at G gr s gx gy \<and> blockblaster_shape_cell s sx sy
        \<and> blockblaster_shape_cell s' sx sy"
  then have inside: "in_grid G (gx + sx) (gy + sy)"
    by (auto simp: can_place_at_iff)
  have "occ (blockblaster_place_shape G gr s gx gy th) (gy + sy) (gx + sx)"
    using a inside by (simp add: place_shape_occ)
  then show "\<not> blockblaster_can_place_at G (blockblaster_place_shape G gr s gx gy th) s' gx gy"
    using a by (auto simp: can_place_at_iff)
qed

text \<open>Two entries of the shape table, used as concrete inputs.\<close>

lemma shape_12: "SHAPES ! 12 = Shape_init 3 1 [[True, True, True]] ''I3''"
  by (simp add: SHAPES_def)

theorem placement_soundness_witness:
  "blockblaster_can_place_at initial_globals zero_grid (SHAPES ! 12) 4 5
   \<and> blockblaster_shape_cell (SHAPES ! 12) 2 0
   \<and> \<not> blockblaster_can_place_at initial_globals
         (blockblaster_place_shape initial_globals zero_grid (SHAPES ! 12) 4 5 zero_theme)
         (SHAPES ! 12) 4 5"
proof -
  have c: "blockblaster_shape_cell (SHAPES ! 12) 2 0"
    by (simp add: shape_12 Shape_init_def blockblaster_shape_cell_def cells_init_def)
  have p: "blockblaster_can_place_at initial_globals zero_grid (SHAPES ! 12) 4 5"
    by (simp add: shape_12 Shape_init_def blockblaster_can_place_at_def can_place_at_sy.simps
        can_place_at_sx.simps blockblaster_shape_cell_def cells_init_def initial_globals_def
        zero_grid_def)
  show ?thesis
    using c p placement_soundness [of initial_globals zero_grid "SHAPES ! 12" 4 5 2 0 "SHAPES ! 12" zero_theme]
    by blast
qed

text \<open>
  Claim C10 (placement clips). At any offset, valid or not,
  \<^verbatim>\<open>blockblaster_place_shape\<close> leaves every cell outside the \<^verbatim>\<open>GRID_W\<close> by
  \<^verbatim>\<open>GRID_H\<close> grid as it was (occupancy, theme and theme flag), never turns an occupied
  cell into a free one, sets every cell of the grid under a filled cell of the shape to
  occupied with the given theme, whatever it held before, and leaves every cell that is
  under no filled cell of the shape as it was.
\<close>

theorem place_shape_clips:
  "(\<not> in_grid G x y \<longrightarrow>
      occ (blockblaster_place_shape G gr s gx gy th) y x = occ gr y x
      \<and> cell_theme (blockblaster_place_shape G gr s gx gy th) y x = cell_theme gr y x
      \<and> has_theme (blockblaster_place_shape G gr s gx gy th) y x = has_theme gr y x)
   \<and> (occ gr y x \<longrightarrow> occ (blockblaster_place_shape G gr s gx gy th) y x)
   \<and> (in_grid G x y \<and> blockblaster_shape_cell s (x - gx) (y - gy) \<longrightarrow>
        occ (blockblaster_place_shape G gr s gx gy th) y x
        \<and> cell_theme (blockblaster_place_shape G gr s gx gy th) y x = th
        \<and> has_theme (blockblaster_place_shape G gr s gx gy th) y x)
   \<and> (\<not> blockblaster_shape_cell s (x - gx) (y - gy) \<longrightarrow>
        occ (blockblaster_place_shape G gr s gx gy th) y x = occ gr y x
        \<and> cell_theme (blockblaster_place_shape G gr s gx gy th) y x = cell_theme gr y x
        \<and> has_theme (blockblaster_place_shape G gr s gx gy th) y x = has_theme gr y x)"
  using shape_cell_nonneg [of s "x - gx" "y - gy"]
  by (simp add: blockblaster_place_shape_def place_shape_sy_occ place_shape_sy_cell_theme
      place_shape_sy_has_theme)

lemma shape_4: "SHAPES ! 4 = Shape_init 2 1 [[True, True]] ''I2''"
  by (simp add: SHAPES_def)

theorem place_shape_clips_witness:
  "\<not> blockblaster_can_place_at initial_globals zero_grid (SHAPES ! 4) 9 0
   \<and> \<not> in_grid initial_globals 10 0
   \<and> blockblaster_shape_cell (SHAPES ! 4) (10 - 9) (0 - 0)
   \<and> \<not> occ (blockblaster_place_shape initial_globals zero_grid (SHAPES ! 4) 9 0 zero_theme) 0 10
   \<and> in_grid initial_globals 9 0
   \<and> blockblaster_shape_cell (SHAPES ! 4) (9 - 9) (0 - 0)
   \<and> occ (blockblaster_place_shape initial_globals zero_grid (SHAPES ! 4) 9 0 zero_theme) 0 9
   \<and> \<not> blockblaster_shape_cell (SHAPES ! 4) (3 - 9) (3 - 0)
   \<and> \<not> occ (blockblaster_place_shape initial_globals zero_grid (SHAPES ! 4) 9 0 zero_theme) 3 3"
proof -
  have np: "\<not> blockblaster_can_place_at initial_globals zero_grid (SHAPES ! 4) 9 0"
    by (simp add: shape_4 Shape_init_def blockblaster_can_place_at_def can_place_at_sy.simps
        can_place_at_sx.simps blockblaster_shape_cell_def cells_init_def initial_globals_def
        zero_grid_def)
  have out: "\<not> in_grid initial_globals 10 0" and ins: "in_grid initial_globals 9 0"
    by (simp_all add: in_grid_def initial_globals_def)
  have c1: "blockblaster_shape_cell (SHAPES ! 4) (10 - 9) (0 - 0)"
    and c0: "blockblaster_shape_cell (SHAPES ! 4) (9 - 9) (0 - 0)"
    and c3: "\<not> blockblaster_shape_cell (SHAPES ! 4) (3 - 9) (3 - 0)"
    by (simp_all add: shape_4 Shape_init_def blockblaster_shape_cell_def cells_init_def)
  have z: "\<not> occ zero_grid 0 10" "\<not> occ zero_grid 3 3"
    by (simp_all add: zero_grid_def)
  show ?thesis
    using np out ins c1 c0 c3 z
      place_shape_clips [of initial_globals 10 0 zero_grid "SHAPES ! 4" 9 0 zero_theme]
      place_shape_clips [of initial_globals 9 0 zero_grid "SHAPES ! 4" 9 0 zero_theme]
      place_shape_clips [of initial_globals 3 3 zero_grid "SHAPES ! 4" 9 0 zero_theme]
    by blast
qed

subsection \<open>Shape table\<close>

declare placed_cells_sx.simps [simp del]
declare placed_cells_sy.simps [simp del]

lemma shape_19: "SHAPES ! 19 = Shape_init 1 3 [[True], [True], [True]] ''V3''"
  by (simp add: SHAPES_def)

lemma shape_20: "SHAPES ! 20 = Shape_init 2 2 [[True, False], [False, True]] (''D'' @ [CHR 0x5C] @ ''2'')"
  by (simp add: SHAPES_def)

lemma shape_54: "SHAPES ! 54 = Shape_init 3 3 [[True, True, True], [True, True, True], [True, True, True]] ''O3''"
  by (simp add: SHAPES_def)

lemma shape_60: "SHAPES ! 60 = Shape_init 4 4 [[False, False, False, True], [False, False, True, False], [False, True, False, False], [True, False, False, False]] (''D/4'')"
  by (simp add: SHAPES_def)

lemmas placed_cells_eval =
  placed_cells_def placed_cells_sy.simps placed_cells_sx.simps Shape_init_def
  blockblaster_shape_cell_def cells_init_def

text \<open>
  Claim C9 (shape table ordering). The header requires the table to be sorted from the
  fewest to the most filled cells. The table as written is not: entry 19 (\<^verbatim>\<open>V3\<close>)
  has three filled cells and entry 20, right after it, has two; entry 54 (\<^verbatim>\<open>O3\<close>) has
  nine, and the last entry, 60, has four.
\<close>

theorem shapes_not_ordered_by_cells:
  "SHAPES_COUNT = 61
   \<and> placed_cells (SHAPES ! 19) = 3 \<and> placed_cells (SHAPES ! 20) = 2
   \<and> placed_cells (SHAPES ! 54) = 9 \<and> placed_cells (SHAPES ! 60) = 4"
proof -
  have "SHAPES_COUNT = 61"
    by (simp add: SHAPES_COUNT_def SHAPES_def)
  moreover have "placed_cells (SHAPES ! 19) = 3"
    by (simp add: shape_19 placed_cells_eval)
  moreover have "placed_cells (SHAPES ! 20) = 2"
    by (simp add: shape_20 placed_cells_eval)
  moreover have "placed_cells (SHAPES ! 54) = 9"
    by (simp add: shape_54 placed_cells_eval)
  moreover have "placed_cells (SHAPES ! 60) = 4"
    by (simp add: shape_60 placed_cells_eval)
  ultimately show ?thesis by simp
qed

subsection \<open>Scoring and combo\<close>






text \<open>A move that clears no line, field by field.\<close>

lemma score_move_no_clear:
  "lines_cleared \<le> 0 \<Longrightarrow>
   fst (blockblaster_score_move gm placed lines_cleared cleared_cells) =
     (if combo gm > 0 then
        (if wrap32 (combo_miss gm + 1) > 3 then
           gm\<lparr>combo := 0, combo_miss := 0, last_move_mult := 1,
              GameContext.score := wrap64 (GameContext.score gm + wrap32 (wrap32 placed)),
              high_score := max (high_score gm)
                (wrap64 (GameContext.score gm + wrap32 (wrap32 placed)))\<rparr>
         else
           gm\<lparr>combo_miss := wrap32 (combo_miss gm + 1),
              GameContext.score := wrap64 (GameContext.score gm + wrap32 (wrap32 placed)),
              high_score := max (high_score gm)
                (wrap64 (GameContext.score gm + wrap32 (wrap32 placed)))\<rparr>)
      else
        gm\<lparr>last_move_mult := 1,
           GameContext.score := wrap64 (GameContext.score gm + wrap32 (wrap32 placed)),
           high_score := max (high_score gm)
             (wrap64 (GameContext.score gm + wrap32 (wrap32 placed)))\<rparr>)"
  by (simp add: blockblaster_score_move_def Let_def SCORE_PER_PLACED_CELL_def max_def)

lemma wrap32_small: "wrap32 1 = 1" "wrap32 2 = 2" "wrap32 3 = 3" "wrap32 4 = 4"
  by (simp_all add: wrap32_def)

text \<open>
  Claim C3 (combo forgiveness). From a context with \<open>combo = c > 0\<close> and
  \<open>combo_miss = 0\<close>, three calls of \<^verbatim>\<open>blockblaster_score_move\<close> in a row with
  \<open>lines_cleared = 0\<close> each leave \<open>combo = c\<close> and \<open>last_move_mult\<close> as it was; the
  fourth such call sets \<open>combo\<close> to 0, \<open>combo_miss\<close> to 0 and \<open>last_move_mult\<close> to 1.
  In a context with \<open>combo = 0\<close> a call with \<open>lines_cleared = 0\<close> sets
  \<open>last_move_mult\<close> to 1.
\<close>

theorem combo_forgiveness:
  assumes "combo gm > 0" and "combo_miss gm = 0"
    and "gm1 = fst (blockblaster_score_move gm p1 0 c1)"
    and "gm2 = fst (blockblaster_score_move gm1 p2 0 c2)"
    and "gm3 = fst (blockblaster_score_move gm2 p3 0 c3)"
    and "gm4 = fst (blockblaster_score_move gm3 p4 0 c4)"
  shows "combo gm1 = combo gm \<and> last_move_mult gm1 = last_move_mult gm
       \<and> combo gm2 = combo gm \<and> last_move_mult gm2 = last_move_mult gm
       \<and> combo gm3 = combo gm \<and> last_move_mult gm3 = last_move_mult gm
       \<and> combo gm4 = 0 \<and> combo_miss gm4 = 0 \<and> last_move_mult gm4 = 1
       \<and> (combo gm' = 0 \<longrightarrow> last_move_mult (fst (blockblaster_score_move gm' p 0 c)) = 1)"
proof -
  have s1: "combo gm1 = combo gm" "last_move_mult gm1 = last_move_mult gm" "combo_miss gm1 = 1"
    using assms(1,2) by (simp_all add: assms(3) score_move_no_clear wrap32_small)
  have s2: "combo gm2 = combo gm" "last_move_mult gm2 = last_move_mult gm" "combo_miss gm2 = 2"
    using assms(1) s1 by (simp_all add: assms(4) score_move_no_clear wrap32_small)
  have s3: "combo gm3 = combo gm" "last_move_mult gm3 = last_move_mult gm" "combo_miss gm3 = 3"
    using assms(1) s2 by (simp_all add: assms(5) score_move_no_clear wrap32_small)
  have s4: "combo gm4 = 0" "combo_miss gm4 = 0" "last_move_mult gm4 = 1"
    using assms(1) s3 by (simp_all add: assms(6) score_move_no_clear wrap32_small)
  have s0: "combo gm' = 0 \<longrightarrow> last_move_mult (fst (blockblaster_score_move gm' p 0 c)) = 1"
    by (simp add: score_move_no_clear)
  show ?thesis
    using s1 s2 s3 s4 s0 by simp
qed

theorem combo_forgiveness_witness:
  "combo (zero_context\<lparr>combo := 3, last_move_mult := 4\<rparr>) > 0
   \<and> combo_miss (zero_context\<lparr>combo := 3, last_move_mult := 4\<rparr>) = 0
   \<and> map (\<lambda>c. (combo c, last_move_mult c))
         (score_moves (zero_context\<lparr>combo := 3, last_move_mult := 4\<rparr>)
            [(3, 0, 0), (2, 0, 0), (5, 0, 0), (1, 0, 0)])
       = [(3, 4), (3, 4), (3, 4), (0, 1)]
   \<and> combo zero_context = 0
   \<and> last_move_mult (fst (blockblaster_score_move zero_context 3 0 0)) = 1"
proof -
  let ?g = "zero_context\<lparr>combo := 3, last_move_mult := 4\<rparr>"
  have h1: "combo ?g > 0" and h2: "combo_miss ?g = 0" and h3: "combo zero_context = 0"
    by (simp_all add: zero_context_def)
  have v: "combo ?g = 3" "last_move_mult ?g = 4"
    by (simp_all add: zero_context_def)
  show ?thesis
    using h1 h2 h3 v
      combo_forgiveness [OF h1 h2 refl refl refl refl, of 3 0 2 0 5 0 1 0 zero_context 3 0]
    by (simp add: Let_def)
qed

















subsection \<open>Persisted settings and high scores\<close>

declare clamp_entries.simps [simp del]
declare read_entries.simps [simp del]

lemmas scan_eval =
  scan_d_def scan_s_def isspace_def isdigit_def

lemma scan_2_12: "fscanf_ints 2 ''2 12'' = ([2, 12], [])"
  by (simp add: numeral_2_eq_2 scan_eval)

lemma scan_7_15: "fscanf_ints 2 ''7 15'' = ([7, 15], [])"
  by (simp add: numeral_2_eq_2 scan_eval)

text \<open>
  Claim C7 as stated (any parsed value out of range yields the pair \<open>(4, 10)\<close>) fails:
  the file \<^verbatim>\<open>2 12\<close> parses as tray count 2 and grid size 12, and
  \<^verbatim>\<open>blockblaster_load_settings\<close> yields \<open>(2, 10)\<close>.
\<close>

theorem load_settings_not_pair_default:
  "fscanf_ints 2 ''2 12'' = ([2, 12], [])
   \<and> blockblaster_load_settings (Some ''2 12'') = (2, 10)
   \<and> blockblaster_load_settings (Some ''2 12'') \<noteq> (4, 10)"
  by (simp add: blockblaster_load_settings_def scan_2_12)

text \<open>
  Claim C7, amended. \<^verbatim>\<open>blockblaster_load_settings\<close> yields \<open>(4, 10)\<close> when the
  settings file is missing or does not start with two integers. Otherwise the two
  parsed values are validated each on its own: a grid size of 10, 15 or 20 is kept and
  any other becomes 10; a tray count in \<open>[1, 4]\<close> is kept and one above 4 becomes 4;
  the tray count that results is always in \<open>[1, 4]\<close>.
\<close>

theorem load_settings_validated:
  "blockblaster_load_settings None = (4, 10)
   \<and> ((\<forall>tc gs rest. fscanf_ints 2 f \<noteq> ([tc, gs], rest)) \<longrightarrow>
        blockblaster_load_settings (Some f) = (4, 10))
   \<and> (fscanf_ints 2 f = ([tc, gs], rest) \<longrightarrow>
        snd (blockblaster_load_settings (Some f)) = (if gs = 10 \<or> gs = 15 \<or> gs = 20 then gs else 10)
        \<and> (1 \<le> tc \<and> tc \<le> 4 \<longrightarrow> fst (blockblaster_load_settings (Some f)) = tc)
        \<and> (4 < tc \<longrightarrow> fst (blockblaster_load_settings (Some f)) = 4)
        \<and> 1 \<le> fst (blockblaster_load_settings (Some f))
        \<and> fst (blockblaster_load_settings (Some f)) \<le> 4)"
proof (intro conjI impI)
  show "blockblaster_load_settings None = (4, 10)"
    by (simp add: blockblaster_load_settings_def)
next
  assume "\<forall>tc gs rest. fscanf_ints 2 f \<noteq> ([tc, gs], rest)"
  then show "blockblaster_load_settings (Some f) = (4, 10)"
    by (auto simp: blockblaster_load_settings_def Let_def split: prod.splits list.splits)
next
  assume p: "fscanf_ints 2 f = ([tc, gs], rest)"
  show "snd (blockblaster_load_settings (Some f)) = (if gs = 10 \<or> gs = 15 \<or> gs = 20 then gs else 10)"
    by (simp add: blockblaster_load_settings_def p)
  show "fst (blockblaster_load_settings (Some f)) = tc" if "1 \<le> tc \<and> tc \<le> 4"
    using that by (simp add: blockblaster_load_settings_def p)
  show "fst (blockblaster_load_settings (Some f)) = 4" if "4 < tc"
    using that by (simp add: blockblaster_load_settings_def p)
  show "1 \<le> fst (blockblaster_load_settings (Some f))"
    by (simp add: blockblaster_load_settings_def p)
  show "fst (blockblaster_load_settings (Some f)) \<le> 4"
    by (simp add: blockblaster_load_settings_def p)
qed

lemma scan_junk: "fscanf_ints 2 ''3 x'' = ([3], '' x'')"
  by (simp add: numeral_2_eq_2 scan_eval)

theorem load_settings_validated_witness:
  "(\<forall>tc gs rest. fscanf_ints 2 ''3 x'' \<noteq> ([tc, gs], rest))
   \<and> blockblaster_load_settings (Some ''3 x'') = (4, 10)
   \<and> fscanf_ints 2 ''2 12'' = ([2, 12], [])
   \<and> (1 :: int) \<le> 2 \<and> (2 :: int) \<le> 4
   \<and> blockblaster_load_settings (Some ''2 12'') = (2, 10)
   \<and> fscanf_ints 2 ''7 15'' = ([7, 15], [])
   \<and> (4 :: int) < 7
   \<and> blockblaster_load_settings (Some ''7 15'') = (4, 15)"
proof -
  have a: "\<forall>tc gs rest. fscanf_ints 2 ''3 x'' \<noteq> ([tc, gs], rest)"
    by (simp add: scan_junk)
  have b: "(1 :: int) \<le> 2 \<and> (2 :: int) \<le> 4" and c: "(4 :: int) < 7"
    by simp_all
  show ?thesis
    using a b c scan_2_12 scan_7_15
      load_settings_validated [of "''3 x''" 0 0 "[]"]
      load_settings_validated [of "''2 12''" 2 12 "[]"]
      load_settings_validated [of "''7 15''" 7 15 "[]"]
    by (simp add: prod_eq_iff)
qed

lemma legacy_line_scan:
  "fscanf_ints 2 ''1234 7'' = ([1234, 7], [])"
  by (simp add: numeral_2_eq_2 scan_eval)

text \<open>
  Claim C8 (legacy high-score file). With no scores file and the legacy file
  \<^verbatim>\<open>1234 7\<close>, \<^verbatim>\<open>blockblaster_load_high_scores\<close> produces one entry with score 1234
  and highest combo 7, but its \<open>grid_w\<close>, \<open>grid_h\<close> and \<open>tray_count\<close> are the zeros
  that \<^verbatim>\<open>memset\<close> left: the legacy branch never assigns them. The same line in
  the old format inside a scores file is given 10, 10 and 4.
\<close>

theorem legacy_entry_grid_is_zero:
  "high_score_count (blockblaster_load_high_scores
       \<lparr>scores_file = None, highscore_file = Some ''1234 7''\<rparr> zero_context) = 1
   \<and> high_scores (blockblaster_load_high_scores
       \<lparr>scores_file = None, highscore_file = Some ''1234 7''\<rparr> zero_context) 0
     = \<lparr>grid_w = 0, grid_h = 0, tray_count = 0, score = 1234, highest_combo = 7, name = ''PLAYR''\<rparr>
   \<and> high_scores (blockblaster_load_high_scores
       \<lparr>scores_file = Some (''1'' @ [CHR 0x0A] @ ''1234 7''), highscore_file = None\<rparr> zero_context) 0
     = \<lparr>grid_w = 10, grid_h = 10, tray_count = 4, score = 1234, highest_combo = 7, name = ''PLAYR''\<rparr>"
proof -
  have legacy: "blockblaster_load_high_scores
       \<lparr>scores_file = None, highscore_file = Some ''1234 7''\<rparr> zero_context
     = zero_context\<lparr>high_score_count := 1, high_score := 1234,
         high_scores := (\<lambda>_. zero_entry)
           (0 := \<lparr>grid_w = 0, grid_h = 0, tray_count = 0, score = 1234, highest_combo = 7,
                  name = ''PLAYR''\<rparr>)\<rparr>"
    by (simp add: blockblaster_load_high_scores_def legacy_line_scan load_done_def
        clamp_entries.simps zero_entry_def zero_context_def Let_def)
  have primary: "blockblaster_load_high_scores
       \<lparr>scores_file = Some (''1'' @ [CHR 0x0A] @ ''1234 7''), highscore_file = None\<rparr> zero_context
     = zero_context\<lparr>high_score_count := 1, high_score := 1234,
         high_scores := (\<lambda>_. zero_entry)
           (0 := \<lparr>grid_w = 10, grid_h = 10, tray_count = 4, score = 1234, highest_combo = 7,
                  name = ''PLAYR''\<rparr>)\<rparr>"
    by (simp add: blockblaster_load_high_scores_def load_done_def read_entry_def
        read_entries.simps clamp_entries.simps zero_entry_def zero_context_def Let_def
        MAX_HIGH_SCORES_def MAX_PLAYER_NAME_LEN_def eval_nat_numeral scan_eval)
  show ?thesis
    using legacy primary by simp
qed

subsection \<open>High-score table\<close>

declare find_insert_pos.simps [simp del]
declare shift_entries_down.simps [simp del]

lemma find_insert_pos_props:
  "i \<le> high_score_count gm \<Longrightarrow>
   i \<le> find_insert_pos gm sc i \<and> find_insert_pos gm sc i \<le> high_score_count gm
   \<and> (\<forall>k. i \<le> k \<and> k < find_insert_pos gm sc i \<longrightarrow> sc \<le> HighScoreEntry.score (high_scores gm k))
   \<and> (find_insert_pos gm sc i < high_score_count gm \<longrightarrow>
        HighScoreEntry.score (high_scores gm (find_insert_pos gm sc i)) < sc)"
proof (induction gm sc i rule: find_insert_pos.induct)
  case (1 gm sc i)
  show ?case
  proof (cases "i < high_score_count gm")
    case False
    then have "find_insert_pos gm sc i = high_score_count gm"
      by (subst find_insert_pos.simps) simp
    then show ?thesis using "1.prems" False by auto
  next
    case lt: True
    show ?thesis
    proof (cases "sc > HighScoreEntry.score (high_scores gm i)")
      case True
      then have "find_insert_pos gm sc i = i"
        using lt by (subst find_insert_pos.simps) simp
      then show ?thesis using lt True by auto
    next
      case False
      then have eq: "find_insert_pos gm sc i = find_insert_pos gm sc (i + 1)"
        using lt by (subst find_insert_pos.simps) simp
      have ih: "i + 1 \<le> find_insert_pos gm sc (i + 1) \<and> find_insert_pos gm sc (i + 1) \<le> high_score_count gm
        \<and> (\<forall>k. i + 1 \<le> k \<and> k < find_insert_pos gm sc (i + 1) \<longrightarrow> sc \<le> HighScoreEntry.score (high_scores gm k))
        \<and> (find_insert_pos gm sc (i + 1) < high_score_count gm \<longrightarrow>
             HighScoreEntry.score (high_scores gm (find_insert_pos gm sc (i + 1))) < sc)"
        using "1.IH" [OF lt False] lt by simp
      have "\<forall>k. i \<le> k \<and> k < find_insert_pos gm sc (i + 1) \<longrightarrow> sc \<le> HighScoreEntry.score (high_scores gm k)"
      proof (intro allI impI)
        fix k assume k: "i \<le> k \<and> k < find_insert_pos gm sc (i + 1)"
        show "sc \<le> HighScoreEntry.score (high_scores gm k)"
        proof (cases "k = i")
          case True
          then show ?thesis using False by simp
        next
          case False
          then have "i + 1 \<le> k" using k by simp
          then show ?thesis using ih k by blast
        qed
      qed
      then show ?thesis
        using ih by (simp add: eq)
    qed
  qed
qed

lemma shift_entries_down_at:
  "shift_entries_down hs i pos k = (if pos < k \<and> k \<le> i then hs (k - 1) else hs k)"
proof (induction hs i pos arbitrary: k rule: shift_entries_down.induct)
  case (1 hs i pos)
  show ?case
  proof (cases "i > pos")
    case False
    then show ?thesis
      by (subst shift_entries_down.simps) auto
  next
    case True
    have "shift_entries_down hs i pos k = shift_entries_down (hs(i := hs (i - 1))) (i - 1) pos k"
      using True by (subst shift_entries_down.simps) simp
    also have "\<dots> = (if pos < k \<and> k \<le> i - 1 then (hs(i := hs (i - 1))) (k - 1)
                     else (hs(i := hs (i - 1))) k)"
      by (rule "1.IH" [OF True])
    also have "\<dots> = (if pos < k \<and> k \<le> i then hs (k - 1) else hs k)"
      using True by auto
    finally show ?thesis .
  qed
qed

text \<open>The table after an insertion, entry by entry.\<close>

lemma insert_high_score_unchanged:
  "find_insert_pos gm sc 0 \<ge> MAX_HIGH_SCORES \<Longrightarrow> blockblaster_insert_high_score G gm sc cmb nm = gm"
  by (simp add: blockblaster_insert_high_score_def Let_def)

lemma insert_high_score_fields:
  assumes "find_insert_pos gm sc 0 < MAX_HIGH_SCORES"
  shows "high_score_count (blockblaster_insert_high_score G gm sc cmb nm) =
           (if high_score_count gm + 1 > MAX_HIGH_SCORES then MAX_HIGH_SCORES else high_score_count gm + 1)"
    and "high_scores (blockblaster_insert_high_score G gm sc cmb nm) k =
           (if k = find_insert_pos gm sc 0 then
              \<lparr>grid_w = GRID_W G, grid_h = GRID_H G, tray_count = PIECES_PER_SET G,
               score = sc, highest_combo = cmb, name = take MAX_PLAYER_NAME_LEN nm\<rparr>
            else if find_insert_pos gm sc 0 < k
                    \<and> k \<le> (if high_score_count gm + 1 > MAX_HIGH_SCORES then MAX_HIGH_SCORES
                            else high_score_count gm + 1) - 1
                 then high_scores gm (k - 1)
            else high_scores gm k)"
  using assms
  by (simp_all add: blockblaster_insert_high_score_def Let_def shift_entries_down_at)

lemma table_scores_length: "length (table_scores gm) = nat (high_score_count gm)"
  by (simp add: table_scores_def)

lemma table_scores_nth:
  "k < nat (high_score_count gm) \<Longrightarrow>
   table_scores gm ! k = HighScoreEntry.score (high_scores gm (int k))"
  by (simp add: table_scores_def)

lemma table_sorted_iff:
  "sorted_wrt (\<ge>) (table_scores gm) \<longleftrightarrow>
     (\<forall>i j. 0 \<le> i \<and> i < j \<and> j < high_score_count gm \<longrightarrow>
        HighScoreEntry.score (high_scores gm j) \<le> HighScoreEntry.score (high_scores gm i))"
proof
  assume s: "sorted_wrt (\<ge>) (table_scores gm)"
  show "\<forall>i j. 0 \<le> i \<and> i < j \<and> j < high_score_count gm \<longrightarrow>
        HighScoreEntry.score (high_scores gm j) \<le> HighScoreEntry.score (high_scores gm i)"
  proof (intro allI impI)
    fix i j assume a: "0 \<le> i \<and> i < j \<and> j < high_score_count gm"
    then have "nat i < nat j" "nat j < length (table_scores gm)"
      by (simp_all add: table_scores_length)
    then have "table_scores gm ! nat j \<le> table_scores gm ! nat i"
      using s by (simp add: sorted_wrt_iff_nth_less)
    then show "HighScoreEntry.score (high_scores gm j) \<le> HighScoreEntry.score (high_scores gm i)"
      using a by (simp add: table_scores_nth)
  qed
next
  assume p: "\<forall>i j. 0 \<le> i \<and> i < j \<and> j < high_score_count gm \<longrightarrow>
        HighScoreEntry.score (high_scores gm j) \<le> HighScoreEntry.score (high_scores gm i)"
  show "sorted_wrt (\<ge>) (table_scores gm)"
    unfolding sorted_wrt_iff_nth_less
  proof (intro allI impI)
    fix i j assume a: "i < j" "j < length (table_scores gm)"
    then have "HighScoreEntry.score (high_scores gm (int j)) \<le> HighScoreEntry.score (high_scores gm (int i))"
      using p by (simp add: table_scores_length)
    then show "table_scores gm ! i \<ge> table_scores gm ! j"
      using a by (simp add: table_scores_nth table_scores_length)
  qed
qed

lemma insert_high_score_sorted:
  assumes cnt: "0 \<le> high_score_count gm" "high_score_count gm \<le> MAX_HIGH_SCORES"
    and srt: "sorted_wrt (\<ge>) (table_scores gm)"
  shows "0 \<le> high_score_count (blockblaster_insert_high_score G gm sc cmb nm)"
    and "high_score_count (blockblaster_insert_high_score G gm sc cmb nm) \<le> MAX_HIGH_SCORES"
    and "sorted_wrt (\<ge>) (table_scores (blockblaster_insert_high_score G gm sc cmb nm))"
proof -
  let ?p = "find_insert_pos gm sc 0"
  let ?gm' = "blockblaster_insert_high_score G gm sc cmb nm"
  let ?n = "if high_score_count gm + 1 > MAX_HIGH_SCORES then MAX_HIGH_SCORES else high_score_count gm + 1"
  note fp = find_insert_pos_props [OF cnt(1), of sc]
  note old = srt [unfolded table_sorted_iff]
  have all: "0 \<le> high_score_count ?gm' \<and> high_score_count ?gm' \<le> MAX_HIGH_SCORES
      \<and> sorted_wrt (\<ge>) (table_scores ?gm')"
  proof (cases "?p \<ge> MAX_HIGH_SCORES")
    case True
    then show ?thesis
      using cnt srt by (simp add: insert_high_score_unchanged)
  next
    case False
    then have lt: "?p < MAX_HIGH_SCORES" by simp
    note f = insert_high_score_fields [OF lt, of G cmb nm]
    have n: "high_score_count ?gm' = ?n"
      by (rule f(1))
    have nle: "?n \<le> high_score_count gm + 1" "?n \<le> MAX_HIGH_SCORES" "0 \<le> ?n"
      using cnt by (auto simp: MAX_HIGH_SCORES_def)
    have "\<forall>i j. 0 \<le> i \<and> i < j \<and> j < high_score_count ?gm' \<longrightarrow>
        HighScoreEntry.score (high_scores ?gm' j) \<le> HighScoreEntry.score (high_scores ?gm' i)"
    proof (intro allI impI)
      fix i j assume ij: "0 \<le> i \<and> i < j \<and> j < high_score_count ?gm'"
      from ij have j: "j < ?n" using n by simp
      then have jc: "j - 1 < high_score_count gm" using nle by linarith
      consider (below) "j < ?p" | (lands) "i < ?p" "j = ?p" | (across) "i < ?p" "?p < j"
        | (pushed) "i = ?p" "?p < j" | (above) "?p < i"
        using ij by linarith
      then show "HighScoreEntry.score (high_scores ?gm' j) \<le> HighScoreEntry.score (high_scores ?gm' i)"
      proof cases
        case below
        then have "j < high_score_count gm" using fp by linarith
        then show ?thesis using below ij old
          by (simp add: f(2))
      next
        case lands
        then have "sc \<le> HighScoreEntry.score (high_scores gm i)"
          using fp ij by blast
        then show ?thesis using lands by (simp add: f(2))
      next
        case across
        have "HighScoreEntry.score (high_scores gm (j - 1)) \<le> HighScoreEntry.score (high_scores gm i)"
        proof (cases "i = j - 1")
          case True
          then show ?thesis by simp
        next
          case False
          then have "i < j - 1" using ij by linarith
          then show ?thesis using old ij jc by blast
        qed
        then show ?thesis using across j by (simp add: f(2))
      next
        case pushed
        have pc: "?p < high_score_count gm" using pushed jc by linarith
        then have lo: "HighScoreEntry.score (high_scores gm ?p) < sc"
          using fp by blast
        have "HighScoreEntry.score (high_scores gm (j - 1)) \<le> HighScoreEntry.score (high_scores gm ?p)"
        proof (cases "?p = j - 1")
          case True
          then show ?thesis by simp
        next
          case False
          then have "?p < j - 1" using pushed by linarith
          moreover have "0 \<le> ?p" using fp by linarith
          ultimately show ?thesis using old jc by blast
        qed
        then show ?thesis using pushed j lo by (simp add: f(2))
      next
        case above
        have "0 \<le> i - 1" "i - 1 < j - 1" using above fp ij by linarith+
        then have "HighScoreEntry.score (high_scores gm (j - 1)) \<le> HighScoreEntry.score (high_scores gm (i - 1))"
          using old jc by blast
        moreover have "i < ?n" using ij j by linarith
        ultimately show ?thesis using above ij j by (simp add: f(2))
      qed
    qed
    then have "sorted_wrt (\<ge>) (table_scores ?gm')"
      by (simp only: table_sorted_iff)
    then show ?thesis
      using n nle by simp
  qed
  show "0 \<le> high_score_count ?gm'" "high_score_count ?gm' \<le> MAX_HIGH_SCORES"
    "sorted_wrt (\<ge>) (table_scores ?gm')"
    using all by simp_all
qed

lemma insert_into_full_table:
  assumes full: "high_score_count gm = MAX_HIGH_SCORES"
    and higher: "HighScoreEntry.score (high_scores gm (MAX_HIGH_SCORES - 1)) < sc"
  shows "high_score_count (blockblaster_insert_high_score G gm sc cmb nm) = MAX_HIGH_SCORES"
    and "0 \<le> find_insert_pos gm sc 0" and "find_insert_pos gm sc 0 < MAX_HIGH_SCORES"
    and "\<forall>k. 0 \<le> k \<and> k < find_insert_pos gm sc 0 \<longrightarrow>
           high_scores (blockblaster_insert_high_score G gm sc cmb nm) k = high_scores gm k"
    and "HighScoreEntry.score
           (high_scores (blockblaster_insert_high_score G gm sc cmb nm) (find_insert_pos gm sc 0)) = sc"
    and "\<forall>k. find_insert_pos gm sc 0 < k \<and> k < MAX_HIGH_SCORES \<longrightarrow>
           high_scores (blockblaster_insert_high_score G gm sc cmb nm) k = high_scores gm (k - 1)"
proof -
  have c0: "0 \<le> high_score_count gm"
    using full by (simp add: MAX_HIGH_SCORES_def)
  note fp = find_insert_pos_props [OF c0, of sc]
  show p0: "0 \<le> find_insert_pos gm sc 0"
    using fp by simp
  show lt: "find_insert_pos gm sc 0 < MAX_HIGH_SCORES"
  proof (rule ccontr)
    assume "\<not> find_insert_pos gm sc 0 < MAX_HIGH_SCORES"
    then have "MAX_HIGH_SCORES - 1 < find_insert_pos gm sc 0" by simp
    then have "sc \<le> HighScoreEntry.score (high_scores gm (MAX_HIGH_SCORES - 1))"
      using fp by (simp add: MAX_HIGH_SCORES_def)
    then show False using higher by simp
  qed
  note f = insert_high_score_fields [OF lt, of G cmb nm]
  show "high_score_count (blockblaster_insert_high_score G gm sc cmb nm) = MAX_HIGH_SCORES"
    using full by (simp add: f(1))
  show "\<forall>k. 0 \<le> k \<and> k < find_insert_pos gm sc 0 \<longrightarrow>
           high_scores (blockblaster_insert_high_score G gm sc cmb nm) k = high_scores gm k"
    by (simp add: f(2))
  show "HighScoreEntry.score
           (high_scores (blockblaster_insert_high_score G gm sc cmb nm) (find_insert_pos gm sc 0)) = sc"
    by (simp add: f(2))
  show "\<forall>k. find_insert_pos gm sc 0 < k \<and> k < MAX_HIGH_SCORES \<longrightarrow>
           high_scores (blockblaster_insert_high_score G gm sc cmb nm) k = high_scores gm (k - 1)"
    using full by (simp add: f(2))
qed

lemmas insert_eval =
  blockblaster_insert_high_score_def find_insert_pos.simps shift_entries_down.simps
  table_scores_def zero_context_def zero_entry_def MAX_HIGH_SCORES_def Let_def upto.simps

lemma six_inserts:
  "table_scores (fold (\<lambda>sc gm. blockblaster_insert_high_score G gm sc cmb nm)
      [50, 200, 10, 999, 300, 1] zero_context) = [999, 300, 200, 50, 10]"
  "high_score_count (fold (\<lambda>sc gm. blockblaster_insert_high_score G gm sc cmb nm)
      [50, 200, 10, 999, 300, 1] zero_context) = 5"
  by (simp_all add: insert_eval)

lemma five_inserts:
  "table_scores (fold (\<lambda>sc gm. blockblaster_insert_high_score G gm sc cmb nm)
      [50, 200, 10, 999, 300] zero_context) = [999, 300, 200, 50, 10]"
  "high_score_count (fold (\<lambda>sc gm. blockblaster_insert_high_score G gm sc cmb nm)
      [50, 200, 10, 999, 300] zero_context) = 5"
  "HighScoreEntry.score (high_scores (fold (\<lambda>sc gm. blockblaster_insert_high_score G gm sc cmb nm)
      [50, 200, 10, 999, 300] zero_context) 4) = 10"
  by (simp_all add: insert_eval)

text \<open>
  Claim C6 (high-score table ordering). Starting from the empty table, inserting the
  scores 50, 200, 10, 999, 300, 1 in this order with
  \<^verbatim>\<open>blockblaster_insert_high_score\<close> leaves exactly five entries, with the scores
  999, 300, 200, 50, 10 in table order: the score 1 is discarded. In general, an
  insertion into a table of at most \<^verbatim>\<open>MAX_HIGH_SCORES\<close> entries sorted descending by
  score leaves such a table. And an insertion into a full sorted table of a score higher
  than that of the last entry keeps the table full, puts the new score at the insertion
  position, keeps the entries before it and moves each entry from there on one place
  down, so that the old last entry, the lowest, is gone.
\<close>

theorem high_score_table_ordering:
  "table_scores (fold (\<lambda>sc gm. blockblaster_insert_high_score G gm sc cmb nm)
      [50, 200, 10, 999, 300, 1] zero_context) = [999, 300, 200, 50, 10]
   \<and> high_score_count (fold (\<lambda>sc gm. blockblaster_insert_high_score G gm sc cmb nm)
      [50, 200, 10, 999, 300, 1] zero_context) = 5
   \<and> (0 \<le> high_score_count gm \<and> high_score_count gm \<le> MAX_HIGH_SCORES
        \<and> sorted_wrt (\<ge>) (table_scores gm) \<longrightarrow>
        0 \<le> high_score_count (blockblaster_insert_high_score G gm sc cmb nm)
        \<and> high_score_count (blockblaster_insert_high_score G gm sc cmb nm) \<le> MAX_HIGH_SCORES
        \<and> sorted_wrt (\<ge>) (table_scores (blockblaster_insert_high_score G gm sc cmb nm)))
   \<and> (high_score_count gm = MAX_HIGH_SCORES \<and> sorted_wrt (\<ge>) (table_scores gm)
        \<and> HighScoreEntry.score (high_scores gm (MAX_HIGH_SCORES - 1)) < sc \<longrightarrow>
        high_score_count (blockblaster_insert_high_score G gm sc cmb nm) = MAX_HIGH_SCORES
        \<and> 0 \<le> find_insert_pos gm sc 0 \<and> find_insert_pos gm sc 0 < MAX_HIGH_SCORES
        \<and> (\<forall>k. 0 \<le> k \<and> k < find_insert_pos gm sc 0 \<longrightarrow>
              high_scores (blockblaster_insert_high_score G gm sc cmb nm) k = high_scores gm k)
        \<and> HighScoreEntry.score
             (high_scores (blockblaster_insert_high_score G gm sc cmb nm) (find_insert_pos gm sc 0)) = sc
        \<and> (\<forall>k. find_insert_pos gm sc 0 < k \<and> k < MAX_HIGH_SCORES \<longrightarrow>
              high_scores (blockblaster_insert_high_score G gm sc cmb nm) k = high_scores gm (k - 1)))"
proof (intro conjI impI)
  assume "0 \<le> high_score_count gm \<and> high_score_count gm \<le> MAX_HIGH_SCORES
        \<and> sorted_wrt (\<ge>) (table_scores gm)"
  then have c: "0 \<le> high_score_count gm" "high_score_count gm \<le> MAX_HIGH_SCORES"
    and s: "sorted_wrt (\<ge>) (table_scores gm)"
    by simp_all
  show "0 \<le> high_score_count (blockblaster_insert_high_score G gm sc cmb nm)"
    by (rule insert_high_score_sorted(1) [OF c s])
  show "high_score_count (blockblaster_insert_high_score G gm sc cmb nm) \<le> MAX_HIGH_SCORES"
    by (rule insert_high_score_sorted(2) [OF c s])
  show "sorted_wrt (\<ge>) (table_scores (blockblaster_insert_high_score G gm sc cmb nm))"
    by (rule insert_high_score_sorted(3) [OF c s])
next
  assume "high_score_count gm = MAX_HIGH_SCORES \<and> sorted_wrt (\<ge>) (table_scores gm)
        \<and> HighScoreEntry.score (high_scores gm (MAX_HIGH_SCORES - 1)) < sc"
  then have f: "high_score_count gm = MAX_HIGH_SCORES"
    and hi: "HighScoreEntry.score (high_scores gm (MAX_HIGH_SCORES - 1)) < sc"
    by simp_all
  show "high_score_count (blockblaster_insert_high_score G gm sc cmb nm) = MAX_HIGH_SCORES"
    by (rule insert_into_full_table(1) [OF f hi])
  show "0 \<le> find_insert_pos gm sc 0"
    by (rule insert_into_full_table(2) [OF f hi])
  show "find_insert_pos gm sc 0 < MAX_HIGH_SCORES"
    by (rule insert_into_full_table(3) [OF f hi])
  show "\<forall>k. 0 \<le> k \<and> k < find_insert_pos gm sc 0 \<longrightarrow>
              high_scores (blockblaster_insert_high_score G gm sc cmb nm) k = high_scores gm k"
    by (rule insert_into_full_table(4) [OF f hi])
  show "HighScoreEntry.score
             (high_scores (blockblaster_insert_high_score G gm sc cmb nm) (find_insert_pos gm sc 0)) = sc"
    by (rule insert_into_full_table(5) [OF f hi])
  show "\<forall>k. find_insert_pos gm sc 0 < k \<and> k < MAX_HIGH_SCORES \<longrightarrow>
              high_scores (blockblaster_insert_high_score G gm sc cmb nm) k = high_scores gm (k - 1)"
    by (rule insert_into_full_table(6) [OF f hi])
qed (rule six_inserts)+

theorem high_score_table_ordering_witness:
  "high_score_count (fold (\<lambda>sc gm. blockblaster_insert_high_score initial_globals gm sc 0 ''PLAYR'')
      [50, 200, 10, 999, 300] zero_context) = MAX_HIGH_SCORES
   \<and> sorted_wrt (\<ge>) (table_scores (fold (\<lambda>sc gm. blockblaster_insert_high_score initial_globals gm sc 0 ''PLAYR'')
      [50, 200, 10, 999, 300] zero_context))
   \<and> HighScoreEntry.score (high_scores (fold (\<lambda>sc gm. blockblaster_insert_high_score initial_globals gm sc 0 ''PLAYR'')
      [50, 200, 10, 999, 300] zero_context) (MAX_HIGH_SCORES - 1)) < 400
   \<and> high_score_count (blockblaster_insert_high_score initial_globals
        (fold (\<lambda>sc gm. blockblaster_insert_high_score initial_globals gm sc 0 ''PLAYR'')
           [50, 200, 10, 999, 300] zero_context) 400 0 ''PLAYR'') = MAX_HIGH_SCORES
   \<and> sorted_wrt (\<ge>) (table_scores (blockblaster_insert_high_score initial_globals
        (fold (\<lambda>sc gm. blockblaster_insert_high_score initial_globals gm sc 0 ''PLAYR'')
           [50, 200, 10, 999, 300] zero_context) 400 0 ''PLAYR''))
   \<and> table_scores (blockblaster_insert_high_score initial_globals
        (fold (\<lambda>sc gm. blockblaster_insert_high_score initial_globals gm sc 0 ''PLAYR'')
           [50, 200, 10, 999, 300] zero_context) 400 0 ''PLAYR'') = [999, 400, 300, 200, 50]"
proof -
  let ?gm = "fold (\<lambda>sc gm. blockblaster_insert_high_score initial_globals gm sc 0 ''PLAYR'')
      [50, 200, 10, 999, 300] zero_context"
  note five = five_inserts [of initial_globals 0 "''PLAYR''"]
  have h1: "high_score_count ?gm = MAX_HIGH_SCORES"
    using five(2) by (simp add: MAX_HIGH_SCORES_def)
  have h2: "sorted_wrt (\<ge>) (table_scores ?gm)"
    by (simp only: five(1)) simp
  have h3: "HighScoreEntry.score (high_scores ?gm (MAX_HIGH_SCORES - 1)) < 400"
    using five(3) by (simp add: MAX_HIGH_SCORES_def)
  have ev: "table_scores (blockblaster_insert_high_score initial_globals ?gm 400 0 ''PLAYR'')
      = [999, 400, 300, 200, 50]"
    by (simp add: insert_eval)
  show ?thesis
    using h1 h2 h3 ev high_score_table_ordering [of initial_globals 0 "''PLAYR''" ?gm 400]
    by simp
qed

subsection \<open>Clear mask\<close>

declare is_row_full_x.simps [simp del]
declare is_col_full_y.simps [simp del]
declare build_full_row.simps [simp del]
declare build_full_col.simps [simp del]
declare count_full_rows.simps [simp del]
declare count_full_cols.simps [simp del]
declare write_mask_x.simps [simp del]
declare write_mask_y.simps [simp del]

lemma is_row_full_x_iff:
  "is_row_full_x G cellgrid y x0 \<longleftrightarrow> (\<forall>x. x0 \<le> x \<and> x < GRID_W G \<longrightarrow> cellgrid y x)"
proof (induction G cellgrid y x0 rule: is_row_full_x.induct)
  case (1 G cellgrid y x)
  show ?case
  proof (cases "x < GRID_W G")
    case False
    then show ?thesis
      by (subst is_row_full_x.simps) auto
  next
    case lt: True
    show ?thesis
    proof (cases "cellgrid y x")
      case False
      then have "\<not> is_row_full_x G cellgrid y x"
        using lt by (subst is_row_full_x.simps) simp
      then show ?thesis using lt False by auto
    next
      case True
      have "is_row_full_x G cellgrid y x = is_row_full_x G cellgrid y (x + 1)"
        using lt True by (subst is_row_full_x.simps) simp
      also have "\<dots> = (\<forall>k. x + 1 \<le> k \<and> k < GRID_W G \<longrightarrow> cellgrid y k)"
        using "1.IH" lt True by simp
      also have "\<dots> = (\<forall>k. x \<le> k \<and> k < GRID_W G \<longrightarrow> cellgrid y k)"
        using True by (metis add1_zle_eq order_le_less)
      finally show ?thesis .
    qed
  qed
qed

lemma is_col_full_y_iff:
  "is_col_full_y G cellgrid x y0 \<longleftrightarrow> (\<forall>y. y0 \<le> y \<and> y < GRID_H G \<longrightarrow> cellgrid y x)"
proof (induction G cellgrid x y0 rule: is_col_full_y.induct)
  case (1 G cellgrid x y)
  show ?case
  proof (cases "y < GRID_H G")
    case False
    then show ?thesis
      by (subst is_col_full_y.simps) auto
  next
    case lt: True
    show ?thesis
    proof (cases "cellgrid y x")
      case False
      then have "\<not> is_col_full_y G cellgrid x y"
        using lt by (subst is_col_full_y.simps) simp
      then show ?thesis using lt False by auto
    next
      case True
      have "is_col_full_y G cellgrid x y = is_col_full_y G cellgrid x (y + 1)"
        using lt True by (subst is_col_full_y.simps) simp
      also have "\<dots> = (\<forall>k. y + 1 \<le> k \<and> k < GRID_H G \<longrightarrow> cellgrid k x)"
        using "1.IH" lt True by simp
      also have "\<dots> = (\<forall>k. y \<le> k \<and> k < GRID_H G \<longrightarrow> cellgrid k x)"
        using True by (metis add1_zle_eq order_le_less)
      finally show ?thesis .
    qed
  qed
qed

lemma is_row_full_iff: "is_row_full G (occ gr) y \<longleftrightarrow> row_fully_occupied G gr y"
  by (simp add: is_row_full_def is_row_full_x_iff row_fully_occupied_def)

lemma is_col_full_iff: "is_col_full G (occ gr) x \<longleftrightarrow> col_fully_occupied G gr x"
  by (simp add: is_col_full_def is_col_full_y_iff col_fully_occupied_def)

lemma build_full_row_at:
  "build_full_row G gr y0 full_row y =
     (if y0 \<le> y \<and> y < GRID_H G then row_fully_occupied G gr y else full_row y)"
proof (induction G gr y0 full_row rule: build_full_row.induct)
  case (1 G gr y0 full_row)
  show ?case
  proof (cases "y0 < GRID_H G")
    case False
    then show ?thesis
      by (subst build_full_row.simps) auto
  next
    case True
    have "build_full_row G gr y0 full_row y =
          build_full_row G gr (y0 + 1) (full_row(y0 := is_row_full G (occ gr) y0)) y"
      using True by (subst build_full_row.simps) simp
    also have "\<dots> = (if y0 + 1 \<le> y \<and> y < GRID_H G then row_fully_occupied G gr y
                     else (full_row(y0 := is_row_full G (occ gr) y0)) y)"
      by (rule "1.IH" [OF True])
    also have "\<dots> = (if y0 \<le> y \<and> y < GRID_H G then row_fully_occupied G gr y else full_row y)"
      using True by (auto simp: is_row_full_iff)
    finally show ?thesis .
  qed
qed

lemma build_full_col_at:
  "build_full_col G gr x0 full_col x =
     (if x0 \<le> x \<and> x < GRID_W G then col_fully_occupied G gr x else full_col x)"
proof (induction G gr x0 full_col rule: build_full_col.induct)
  case (1 G gr x0 full_col)
  show ?case
  proof (cases "x0 < GRID_W G")
    case False
    then show ?thesis
      by (subst build_full_col.simps) auto
  next
    case True
    have "build_full_col G gr x0 full_col x =
          build_full_col G gr (x0 + 1) (full_col(x0 := is_col_full G (occ gr) x0)) x"
      using True by (subst build_full_col.simps) simp
    also have "\<dots> = (if x0 + 1 \<le> x \<and> x < GRID_W G then col_fully_occupied G gr x
                     else (full_col(x0 := is_col_full G (occ gr) x0)) x)"
      by (rule "1.IH" [OF True])
    also have "\<dots> = (if x0 \<le> x \<and> x < GRID_W G then col_fully_occupied G gr x else full_col x)"
      using True by (auto simp: is_col_full_iff)
    finally show ?thesis .
  qed
qed

lemma flagged_from_step:
  assumes "(lo :: int) < hi"
  shows "{k. lo \<le> k \<and> k < hi \<and> P k} =
           (if P lo then insert lo {k. lo + 1 \<le> k \<and> k < hi \<and> P k}
            else {k. lo + 1 \<le> k \<and> k < hi \<and> P k})"
  using assms by (auto simp: order_le_less add1_zle_eq)

lemma flagged_from_finite: "finite {k. (lo :: int) \<le> k \<and> k < hi \<and> P k}"
  by (rule finite_subset [of _ "{lo..<hi}"]) auto

lemma count_full_rows_eq:
  "count_full_rows G full_row y0 n = n + int (card {y. y0 \<le> y \<and> y < GRID_H G \<and> full_row y})"
proof (induction G full_row y0 n rule: count_full_rows.induct)
  case (1 G full_row y0 n)
  show ?case
  proof (cases "y0 < GRID_H G")
    case False
    then have none: "{y. y0 \<le> y \<and> y < GRID_H G \<and> full_row y} = {}" by auto
    show ?thesis
      using False by (subst count_full_rows.simps) (simp add: none)
  next
    case True
    have "count_full_rows G full_row y0 n =
          count_full_rows G full_row (y0 + 1) (if full_row y0 then n + 1 else n)"
      using True by (subst count_full_rows.simps) simp
    also have "\<dots> = (if full_row y0 then n + 1 else n)
                     + int (card {y. y0 + 1 \<le> y \<and> y < GRID_H G \<and> full_row y})"
      by (rule "1.IH" [OF True])
    also have "\<dots> = n + int (card {y. y0 \<le> y \<and> y < GRID_H G \<and> full_row y})"
      using flagged_from_finite [of "y0 + 1" "GRID_H G" full_row]
      by (simp add: flagged_from_step [OF True])
    finally show ?thesis .
  qed
qed

lemma count_full_cols_eq:
  "count_full_cols G full_col x0 n = n + int (card {x. x0 \<le> x \<and> x < GRID_W G \<and> full_col x})"
proof (induction G full_col x0 n rule: count_full_cols.induct)
  case (1 G full_col x0 n)
  show ?case
  proof (cases "x0 < GRID_W G")
    case False
    then have none: "{x. x0 \<le> x \<and> x < GRID_W G \<and> full_col x} = {}" by auto
    show ?thesis
      using False by (subst count_full_cols.simps) (simp add: none)
  next
    case True
    have "count_full_cols G full_col x0 n =
          count_full_cols G full_col (x0 + 1) (if full_col x0 then n + 1 else n)"
      using True by (subst count_full_cols.simps) simp
    also have "\<dots> = (if full_col x0 then n + 1 else n)
                     + int (card {x. x0 + 1 \<le> x \<and> x < GRID_W G \<and> full_col x})"
      by (rule "1.IH" [OF True])
    also have "\<dots> = n + int (card {x. x0 \<le> x \<and> x < GRID_W G \<and> full_col x})"
      using flagged_from_finite [of "x0 + 1" "GRID_W G" full_col]
      by (simp add: flagged_from_step [OF True])
    finally show ?thesis .
  qed
qed

lemma write_mask_x_at:
  "write_mask_x G full_row full_col y x0 out_mask y' x' =
     (if y' = y \<and> x0 \<le> x' \<and> x' < GRID_W G then full_row y \<or> full_col x' else out_mask y' x')"
proof (induction G full_row full_col y x0 out_mask rule: write_mask_x.induct)
  case (1 G full_row full_col y x0 out_mask)
  show ?case
  proof (cases "x0 < GRID_W G")
    case False
    then show ?thesis
      by (subst write_mask_x.simps) auto
  next
    case True
    have "write_mask_x G full_row full_col y x0 out_mask y' x' =
          write_mask_x G full_row full_col y (x0 + 1)
            (store2 out_mask y x0 (full_row y \<or> full_col x0)) y' x'"
      using True by (subst write_mask_x.simps) simp
    also have "\<dots> = (if y' = y \<and> x0 + 1 \<le> x' \<and> x' < GRID_W G then full_row y \<or> full_col x'
                     else store2 out_mask y x0 (full_row y \<or> full_col x0) y' x')"
      by (rule "1.IH" [OF True])
    also have "\<dots> = (if y' = y \<and> x0 \<le> x' \<and> x' < GRID_W G then full_row y \<or> full_col x'
                     else out_mask y' x')"
      using True by (auto simp: store2_def)
    finally show ?thesis .
  qed
qed

lemma write_mask_y_at:
  "write_mask_y G full_row full_col y0 out_mask y' x' =
     (if y0 \<le> y' \<and> y' < GRID_H G \<and> 0 \<le> x' \<and> x' < GRID_W G then full_row y' \<or> full_col x'
      else out_mask y' x')"
proof (induction G full_row full_col y0 out_mask rule: write_mask_y.induct)
  case (1 G full_row full_col y0 out_mask)
  show ?case
  proof (cases "y0 < GRID_H G")
    case False
    then show ?thesis
      by (subst write_mask_y.simps) auto
  next
    case True
    have "write_mask_y G full_row full_col y0 out_mask y' x' =
          write_mask_y G full_row full_col (y0 + 1)
            (write_mask_x G full_row full_col y0 0 out_mask) y' x'"
      using True by (subst write_mask_y.simps) simp
    also have "\<dots> = (if y0 + 1 \<le> y' \<and> y' < GRID_H G \<and> 0 \<le> x' \<and> x' < GRID_W G
                     then full_row y' \<or> full_col x'
                     else write_mask_x G full_row full_col y0 0 out_mask y' x')"
      by (rule "1.IH" [OF True])
    also have "\<dots> = (if y0 \<le> y' \<and> y' < GRID_H G \<and> 0 \<le> x' \<and> x' < GRID_W G
                     then full_row y' \<or> full_col x' else out_mask y' x')"
      using True by (auto simp: write_mask_x_at)
    finally show ?thesis .
  qed
qed

lemma build_clear_mask_lines:
  "fst (blockblaster_build_clear_mask G gr out_mask) =
     int (card {y. 0 \<le> y \<and> y < GRID_H G \<and> row_fully_occupied G gr y})
     + int (card {x. 0 \<le> x \<and> x < GRID_W G \<and> col_fully_occupied G gr x})"
proof -
  have rows: "{y. 0 \<le> y \<and> y < GRID_H G \<and> build_full_row G gr 0 (\<lambda>_. False) y}
            = {y. 0 \<le> y \<and> y < GRID_H G \<and> row_fully_occupied G gr y}"
    by (auto simp: build_full_row_at)
  have cols: "{x. 0 \<le> x \<and> x < GRID_W G \<and> build_full_col G gr 0 (\<lambda>_. False) x}
            = {x. 0 \<le> x \<and> x < GRID_W G \<and> col_fully_occupied G gr x}"
    by (auto simp: build_full_col_at)
  show ?thesis
    by (simp add: blockblaster_build_clear_mask_def Let_def count_full_rows_eq count_full_cols_eq
        rows cols)
qed

lemma build_clear_mask_at:
  "snd (blockblaster_build_clear_mask G gr out_mask) y x =
     (if in_grid G x y then row_fully_occupied G gr y \<or> col_fully_occupied G gr x
      else out_mask y x)"
  by (auto simp: blockblaster_build_clear_mask_def Let_def write_mask_y_at build_full_row_at
      build_full_col_at in_grid_def)

text \<open>
  Claim C2 (clear-mask correctness). For every grid,
  \<^verbatim>\<open>blockblaster_build_clear_mask\<close> returns the number of fully occupied rows plus the
  number of fully occupied columns, and flags the cell \<open>(x, y)\<close> of the grid if and only
  if row \<open>y\<close> is full or column \<open>x\<close> is full; cells of the mask outside the grid are
  not written. So every cell of a full row is flagged and the row counts once; and when
  exactly two rows and one column are full the count is 3, the cells where they cross
  being flagged like any other, the mask holding one flag per cell.
\<close>

theorem clear_mask_correct:
  "fst (blockblaster_build_clear_mask G gr out_mask) =
     int (card {y. 0 \<le> y \<and> y < GRID_H G \<and> row_fully_occupied G gr y})
     + int (card {x. 0 \<le> x \<and> x < GRID_W G \<and> col_fully_occupied G gr x})
   \<and> (in_grid G x y \<longrightarrow>
        (snd (blockblaster_build_clear_mask G gr out_mask) y x \<longleftrightarrow>
           row_fully_occupied G gr y \<or> col_fully_occupied G gr x))
   \<and> (\<not> in_grid G x y \<longrightarrow> snd (blockblaster_build_clear_mask G gr out_mask) y x = out_mask y x)
   \<and> ({y. 0 \<le> y \<and> y < GRID_H G \<and> row_fully_occupied G gr y} = {r1, r2} \<and> r1 \<noteq> r2
        \<and> {x. 0 \<le> x \<and> x < GRID_W G \<and> col_fully_occupied G gr x} = {c} \<longrightarrow>
        fst (blockblaster_build_clear_mask G gr out_mask) = 3)"
  by (simp add: build_clear_mask_lines build_clear_mask_at)

text \<open>A grid of 10 by 10 cells with rows 2 and 5 and column 3 occupied.\<close>

lemma example_rows:
  "row_fully_occupied initial_globals (zero_grid\<lparr>occ := (\<lambda>y x. y = 2 \<or> y = 5 \<or> x = 3)\<rparr>) y
     \<longleftrightarrow> y = 2 \<or> y = 5"
proof
  assume "row_fully_occupied initial_globals (zero_grid\<lparr>occ := (\<lambda>y x. y = 2 \<or> y = 5 \<or> x = 3)\<rparr>) y"
  then have "\<forall>x :: int. 0 \<le> x \<and> x < 10 \<longrightarrow> y = 2 \<or> y = 5 \<or> x = 3"
    by (simp add: row_fully_occupied_def initial_globals_def)
  from this [rule_format, of 0] show "y = 2 \<or> y = 5" by simp
next
  assume "y = 2 \<or> y = 5"
  then show "row_fully_occupied initial_globals (zero_grid\<lparr>occ := (\<lambda>y x. y = 2 \<or> y = 5 \<or> x = 3)\<rparr>) y"
    by (auto simp: row_fully_occupied_def)
qed

lemma example_cols:
  "col_fully_occupied initial_globals (zero_grid\<lparr>occ := (\<lambda>y x. y = 2 \<or> y = 5 \<or> x = 3)\<rparr>) x
     \<longleftrightarrow> x = 3"
proof
  assume "col_fully_occupied initial_globals (zero_grid\<lparr>occ := (\<lambda>y x. y = 2 \<or> y = 5 \<or> x = 3)\<rparr>) x"
  then have "\<forall>y :: int. 0 \<le> y \<and> y < 10 \<longrightarrow> y = 2 \<or> y = 5 \<or> x = 3"
    by (simp add: col_fully_occupied_def initial_globals_def)
  from this [rule_format, of 0] show "x = 3" by simp
next
  assume "x = 3"
  then show "col_fully_occupied initial_globals (zero_grid\<lparr>occ := (\<lambda>y x. y = 2 \<or> y = 5 \<or> x = 3)\<rparr>) x"
    by (auto simp: col_fully_occupied_def)
qed

theorem clear_mask_correct_witness:
  "in_grid initial_globals 3 2 \<and> in_grid initial_globals 0 0 \<and> \<not> in_grid initial_globals 10 2
   \<and> {y. 0 \<le> y \<and> y < GRID_H initial_globals
          \<and> row_fully_occupied initial_globals (zero_grid\<lparr>occ := (\<lambda>y x. y = 2 \<or> y = 5 \<or> x = 3)\<rparr>) y}
       = {2, 5}
   \<and> (2 :: int) \<noteq> 5
   \<and> {x. 0 \<le> x \<and> x < GRID_W initial_globals
          \<and> col_fully_occupied initial_globals (zero_grid\<lparr>occ := (\<lambda>y x. y = 2 \<or> y = 5 \<or> x = 3)\<rparr>) x}
       = {3}
   \<and> fst (blockblaster_build_clear_mask initial_globals
            (zero_grid\<lparr>occ := (\<lambda>y x. y = 2 \<or> y = 5 \<or> x = 3)\<rparr>) (\<lambda>_ _. False)) = 3
   \<and> snd (blockblaster_build_clear_mask initial_globals
            (zero_grid\<lparr>occ := (\<lambda>y x. y = 2 \<or> y = 5 \<or> x = 3)\<rparr>) (\<lambda>_ _. False)) 2 3
   \<and> \<not> snd (blockblaster_build_clear_mask initial_globals
            (zero_grid\<lparr>occ := (\<lambda>y x. y = 2 \<or> y = 5 \<or> x = 3)\<rparr>) (\<lambda>_ _. False)) 0 0
   \<and> \<not> snd (blockblaster_build_clear_mask initial_globals
            (zero_grid\<lparr>occ := (\<lambda>y x. y = 2 \<or> y = 5 \<or> x = 3)\<rparr>) (\<lambda>_ _. False)) 2 10"
proof -
  let ?gr = "zero_grid\<lparr>occ := (\<lambda>y x. y = 2 \<or> y = 5 \<or> x = 3)\<rparr>"
  let ?m = "(\<lambda>_ _. False) :: int \<Rightarrow> int \<Rightarrow> bool"
  have g: "in_grid initial_globals 3 2" "in_grid initial_globals 0 0" "\<not> in_grid initial_globals 10 2"
    by (simp_all add: in_grid_def initial_globals_def)
  have rows: "{y. 0 \<le> y \<and> y < GRID_H initial_globals \<and> row_fully_occupied initial_globals ?gr y} = {2, 5}"
    by (simp only: example_rows) (auto simp: initial_globals_def)
  have cols: "{x. 0 \<le> x \<and> x < GRID_W initial_globals \<and> col_fully_occupied initial_globals ?gr x} = {3}"
    by (simp only: example_cols) (auto simp: initial_globals_def)
  have ne: "(2 :: int) \<noteq> 5" by simp
  have three: "fst (blockblaster_build_clear_mask initial_globals ?gr ?m) = 3"
    using rows ne cols clear_mask_correct [of initial_globals ?gr ?m 3 2 2 5 3] by blast
  have at_cross: "snd (blockblaster_build_clear_mask initial_globals ?gr ?m) 2 3"
    using g(1) clear_mask_correct [of initial_globals ?gr ?m 3 2 2 5 3]
    by (simp add: example_rows)
  have at_free: "\<not> snd (blockblaster_build_clear_mask initial_globals ?gr ?m) 0 0"
    using g(2) clear_mask_correct [of initial_globals ?gr ?m 0 0 2 5 3]
    by (simp add: example_rows example_cols)
  have outside: "\<not> snd (blockblaster_build_clear_mask initial_globals ?gr ?m) 2 10"
    using g(3) clear_mask_correct [of initial_globals ?gr ?m 10 2 2 5 3]
    by simp
  show ?thesis
    using g rows ne cols three at_cross at_free outside by blast
qed

subsection \<open>Bag randomizer\<close>

declare shuffle_ints_i.simps [simp del]
declare weights_loop.simps [simp del]
declare pick_loop.simps [simp del]
declare bag_refill_i.simps [simp del]

lemma bag_refill_i_keeps:
  "bag_len (fst (bag_refill_i gm i rs)) = bag_len gm
   \<and> bag_pos (fst (bag_refill_i gm i rs)) = bag_pos gm
   \<and> GameContext.score (fst (bag_refill_i gm i rs)) = GameContext.score gm"
proof (induction gm i rs rule: bag_refill_i.induct)
  case (1 gm i rs)
  show ?case
  proof (cases "i < bag_len gm")
    case False
    then show ?thesis
      by (subst bag_refill_i.simps, subst bag_refill_i.simps, subst bag_refill_i.simps) simp
  next
    case True
    obtain si rs' where w: "weighted_shape_index (GameContext.score gm) rs = (si, rs')"
      by (cases "weighted_shape_index (GameContext.score gm) rs")
    have "bag_refill_i gm i rs = bag_refill_i (gm\<lparr>bag := (bag gm)(i := si)\<rparr>) (i + 1) rs'"
      using True w by (subst bag_refill_i.simps) simp
    then show ?thesis
      using "1.IH" [OF True w [symmetric]] by simp
  qed
qed

lemma bag_refill_resets:
  "bag_len (fst (bag_refill gm rs)) = BAG_SIZE" "bag_pos (fst (bag_refill gm rs)) = 0"
  using bag_refill_i_keeps [of "gm\<lparr>bag_len := BAG_SIZE\<rparr>" 0 rs]
  by (simp_all add: bag_refill_def Let_def case_prod_beta)

lemma bag_next_refills:
  "bag_len gm \<le> 0 \<or> bag_pos gm \<ge> bag_len gm \<Longrightarrow>
   bag_next_shape_index gm rs =
     (bag (fst (bag_refill gm rs)) 0, (fst (bag_refill gm rs))\<lparr>bag_pos := 1\<rparr>, snd (bag_refill gm rs))"
  using bag_refill_resets(2) [of gm rs]
  by (simp add: bag_next_shape_index_def case_prod_beta)

lemma bag_next_within:
  "0 < bag_len gm \<Longrightarrow> bag_pos gm < bag_len gm \<Longrightarrow>
   bag_next_shape_index gm rs = (bag gm (bag_pos gm), gm\<lparr>bag_pos := bag_pos gm + 1\<rparr>, rs)"
  by (simp add: bag_next_shape_index_def)

lemma bag_next_cursor:
  "bag_pos (fst (snd (bag_next_shape_index gm rs))) \<le> bag_len (fst (snd (bag_next_shape_index gm rs)))"
proof (cases "bag_len gm \<le> 0 \<or> bag_pos gm \<ge> bag_len gm")
  case True
  then show ?thesis
    using bag_refill_resets(1) [of gm rs]
    by (simp add: bag_next_refills BAG_SIZE_def)
next
  case False
  then show ?thesis
    by (simp add: bag_next_within)
qed

lemma bag_draws_within:
  "0 < bag_len gm \<Longrightarrow> bag_pos gm + int (length scs) \<le> bag_len gm \<Longrightarrow>
   bag_draws scs gm rs = (sis, gm', rs') \<Longrightarrow>
   bag gm' = bag gm \<and> bag_len gm' = bag_len gm \<and> bag_pos gm' = bag_pos gm + int (length scs)
   \<and> rs' = rs \<and> sis = map (bag gm) [bag_pos gm..bag_pos gm + int (length scs) - 1]"
proof (induction scs arbitrary: gm sis gm' rs')
  case Nil
  then show ?case by simp
next
  case (Cons sc scs)
  let ?g1 = "gm\<lparr>GameContext.score := sc, bag_pos := bag_pos gm + 1\<rparr>"
  have lt: "bag_pos gm < bag_len gm"
    using Cons.prems(2) by simp
  have first: "bag_next_shape_index (gm\<lparr>GameContext.score := sc\<rparr>) rs = (bag gm (bag_pos gm), ?g1, rs)"
    using Cons.prems(1) lt by (simp add: bag_next_within)
  obtain sis1 g2 r2 where rest: "bag_draws scs ?g1 rs = (sis1, g2, r2)"
    by (cases "bag_draws scs ?g1 rs") auto
  have res: "sis = bag gm (bag_pos gm) # sis1" "gm' = g2" "rs' = r2"
    using Cons.prems(3) first rest by simp_all
  have ih: "bag g2 = bag ?g1 \<and> bag_len g2 = bag_len ?g1 \<and> bag_pos g2 = bag_pos ?g1 + int (length scs)
     \<and> r2 = rs \<and> sis1 = map (bag ?g1) [bag_pos ?g1..bag_pos ?g1 + int (length scs) - 1]"
    using Cons.prems(1,2) by (intro Cons.IH [OF _ _ rest]) simp_all
  have "[bag_pos gm..bag_pos gm + int (length (sc # scs)) - 1]
        = bag_pos gm # [bag_pos gm + 1..bag_pos gm + 1 + int (length scs) - 1]"
    by (subst upto_rec1) (simp_all add: add.commute add.left_commute)
  then show ?case
    using ih res by simp
qed

text \<open>
  Claim C5 (bag invariant). After every draw the cursor \<open>bag_pos\<close> is at most
  \<open>bag_len\<close>. A refill leaves \<open>bag_len = BAG_SIZE\<close> and \<open>bag_pos = 0\<close>. From the
  context a refill leaves, any number of draws up to \<^verbatim>\<open>BAG_SIZE\<close>, with the score set
  to any value before each of them, take the entries of the bag in order from index 0,
  use no random number, and leave the bag's contents and length as the refill left
  them. After fewer than \<^verbatim>\<open>BAG_SIZE\<close> such draws the next draw takes the next entry
  of the same bag; after exactly \<^verbatim>\<open>BAG_SIZE\<close> the next draw is a refill, which fills
  the bag with the score of that moment, followed by taking the entry at index 0.
\<close>

theorem bag_invariant:
  "bag_pos (fst (snd (bag_next_shape_index gm rs))) \<le> bag_len (fst (snd (bag_next_shape_index gm rs)))
   \<and> bag_len (fst (bag_refill gm rs)) = BAG_SIZE \<and> bag_pos (fst (bag_refill gm rs)) = 0
   \<and> (bag_refill gm rs = (g0, r0) \<and> int (length scs) \<le> BAG_SIZE
        \<and> bag_draws scs g0 r0 = (sis, g1, r1) \<longrightarrow>
        bag g1 = bag g0 \<and> bag_len g1 = BAG_SIZE \<and> bag_pos g1 = int (length scs) \<and> r1 = r0
        \<and> sis = map (bag g0) [0..int (length scs) - 1]
        \<and> (int (length scs) < BAG_SIZE \<longrightarrow>
             bag_next_shape_index (g1\<lparr>GameContext.score := sc\<rparr>) r1 =
               (bag g0 (int (length scs)),
                g1\<lparr>GameContext.score := sc, bag_pos := int (length scs) + 1\<rparr>, r1))
        \<and> (int (length scs) = BAG_SIZE \<longrightarrow>
             bag_next_shape_index (g1\<lparr>GameContext.score := sc\<rparr>) r1 =
               (bag (fst (bag_refill (g1\<lparr>GameContext.score := sc\<rparr>) r1)) 0,
                (fst (bag_refill (g1\<lparr>GameContext.score := sc\<rparr>) r1))\<lparr>bag_pos := 1\<rparr>,
                snd (bag_refill (g1\<lparr>GameContext.score := sc\<rparr>) r1))))"
proof (intro conjI)
  show "bag_pos (fst (snd (bag_next_shape_index gm rs))) \<le> bag_len (fst (snd (bag_next_shape_index gm rs)))"
    by (rule bag_next_cursor)
  show "bag_len (fst (bag_refill gm rs)) = BAG_SIZE" "bag_pos (fst (bag_refill gm rs)) = 0"
    by (rule bag_refill_resets)+
  show "bag_refill gm rs = (g0, r0) \<and> int (length scs) \<le> BAG_SIZE
        \<and> bag_draws scs g0 r0 = (sis, g1, r1) \<longrightarrow>
        bag g1 = bag g0 \<and> bag_len g1 = BAG_SIZE \<and> bag_pos g1 = int (length scs) \<and> r1 = r0
        \<and> sis = map (bag g0) [0..int (length scs) - 1]
        \<and> (int (length scs) < BAG_SIZE \<longrightarrow>
             bag_next_shape_index (g1\<lparr>GameContext.score := sc\<rparr>) r1 =
               (bag g0 (int (length scs)),
                g1\<lparr>GameContext.score := sc, bag_pos := int (length scs) + 1\<rparr>, r1))
        \<and> (int (length scs) = BAG_SIZE \<longrightarrow>
             bag_next_shape_index (g1\<lparr>GameContext.score := sc\<rparr>) r1 =
               (bag (fst (bag_refill (g1\<lparr>GameContext.score := sc\<rparr>) r1)) 0,
                (fst (bag_refill (g1\<lparr>GameContext.score := sc\<rparr>) r1))\<lparr>bag_pos := 1\<rparr>,
                snd (bag_refill (g1\<lparr>GameContext.score := sc\<rparr>) r1)))"
  proof (intro impI)
    assume a: "bag_refill gm rs = (g0, r0) \<and> int (length scs) \<le> BAG_SIZE
        \<and> bag_draws scs g0 r0 = (sis, g1, r1)"
    have g0: "bag_len g0 = BAG_SIZE" "bag_pos g0 = 0"
      using bag_refill_resets [of gm rs] a by simp_all
    have pos: "0 < bag_len g0"
      using g0 by (simp add: BAG_SIZE_def)
    have fit: "bag_pos g0 + int (length scs) \<le> bag_len g0"
      using g0 a by simp
    have d: "bag g1 = bag g0 \<and> bag_len g1 = bag_len g0 \<and> bag_pos g1 = bag_pos g0 + int (length scs)
        \<and> r1 = r0 \<and> sis = map (bag g0) [bag_pos g0..bag_pos g0 + int (length scs) - 1]"
      using a by (intro bag_draws_within [OF pos fit]) simp
    have more: "bag_next_shape_index (g1\<lparr>GameContext.score := sc\<rparr>) r1 =
               (bag g0 (int (length scs)),
                g1\<lparr>GameContext.score := sc, bag_pos := int (length scs) + 1\<rparr>, r1)"
      if "int (length scs) < BAG_SIZE"
      using that d g0 pos by (simp add: bag_next_within)
    have refill: "bag_next_shape_index (g1\<lparr>GameContext.score := sc\<rparr>) r1 =
               (bag (fst (bag_refill (g1\<lparr>GameContext.score := sc\<rparr>) r1)) 0,
                (fst (bag_refill (g1\<lparr>GameContext.score := sc\<rparr>) r1))\<lparr>bag_pos := 1\<rparr>,
                snd (bag_refill (g1\<lparr>GameContext.score := sc\<rparr>) r1))"
      if "int (length scs) = BAG_SIZE"
      using that d g0 by (intro bag_next_refills) simp
    show "bag g1 = bag g0 \<and> bag_len g1 = BAG_SIZE \<and> bag_pos g1 = int (length scs) \<and> r1 = r0
        \<and> sis = map (bag g0) [0..int (length scs) - 1]
        \<and> (int (length scs) < BAG_SIZE \<longrightarrow>
             bag_next_shape_index (g1\<lparr>GameContext.score := sc\<rparr>) r1 =
               (bag g0 (int (length scs)),
                g1\<lparr>GameContext.score := sc, bag_pos := int (length scs) + 1\<rparr>, r1))
        \<and> (int (length scs) = BAG_SIZE \<longrightarrow>
             bag_next_shape_index (g1\<lparr>GameContext.score := sc\<rparr>) r1 =
               (bag (fst (bag_refill (g1\<lparr>GameContext.score := sc\<rparr>) r1)) 0,
                (fst (bag_refill (g1\<lparr>GameContext.score := sc\<rparr>) r1))\<lparr>bag_pos := 1\<rparr>,
                snd (bag_refill (g1\<lparr>GameContext.score := sc\<rparr>) r1)))"
      using d g0 more refill by simp
  qed
qed

theorem bag_invariant_witness:
  "int (length (replicate 24 (75000 :: int))) = BAG_SIZE
   \<and> bag (fst (snd (bag_draws (replicate 24 75000)
        (fst (bag_refill zero_context \<lparr>RAND_MAX = 32767, pending = sconst 0\<rparr>))
        (snd (bag_refill zero_context \<lparr>RAND_MAX = 32767, pending = sconst 0\<rparr>)))))
       = bag (fst (bag_refill zero_context \<lparr>RAND_MAX = 32767, pending = sconst 0\<rparr>))
   \<and> bag_pos (fst (snd (bag_draws (replicate 24 75000)
        (fst (bag_refill zero_context \<lparr>RAND_MAX = 32767, pending = sconst 0\<rparr>))
        (snd (bag_refill zero_context \<lparr>RAND_MAX = 32767, pending = sconst 0\<rparr>))))) = 24
   \<and> snd (snd (bag_draws (replicate 24 75000)
        (fst (bag_refill zero_context \<lparr>RAND_MAX = 32767, pending = sconst 0\<rparr>))
        (snd (bag_refill zero_context \<lparr>RAND_MAX = 32767, pending = sconst 0\<rparr>))))
       = snd (bag_refill zero_context \<lparr>RAND_MAX = 32767, pending = sconst 0\<rparr>)
   \<and> int (length (replicate 5 (75000 :: int))) < BAG_SIZE
   \<and> bag_pos (fst (snd (bag_draws (replicate 5 75000)
        (fst (bag_refill zero_context \<lparr>RAND_MAX = 32767, pending = sconst 0\<rparr>))
        (snd (bag_refill zero_context \<lparr>RAND_MAX = 32767, pending = sconst 0\<rparr>))))) = 5"
proof -
  let ?rs = "\<lparr>RAND_MAX = 32767, pending = sconst 0\<rparr>"
  let ?g0 = "fst (bag_refill zero_context ?rs)"
  let ?r0 = "snd (bag_refill zero_context ?rs)"
  let ?full = "bag_draws (replicate 24 75000) ?g0 ?r0"
  let ?part = "bag_draws (replicate 5 75000) ?g0 ?r0"
  have r: "bag_refill zero_context ?rs = (?g0, ?r0)"
    by simp
  have n24: "int (length (replicate 24 (75000 :: int))) = BAG_SIZE"
    and n5: "int (length (replicate 5 (75000 :: int))) < BAG_SIZE"
    by (simp_all add: BAG_SIZE_def)
  have le24: "int (length (replicate 24 (75000 :: int))) \<le> BAG_SIZE"
    and le5: "int (length (replicate 5 (75000 :: int))) \<le> BAG_SIZE"
    using n24 n5 by simp_all
  have d24: "?full = (fst ?full, fst (snd ?full), snd (snd ?full))"
    and d5: "?part = (fst ?part, fst (snd ?part), snd (snd ?part))"
    by simp_all
  have full: "bag (fst (snd ?full)) = bag ?g0 \<and> bag_pos (fst (snd ?full)) = 24 \<and> snd (snd ?full) = ?r0"
    using bag_invariant [of zero_context ?rs ?g0 ?r0 "replicate 24 75000"
        "fst ?full" "fst (snd ?full)" "snd (snd ?full)" 0] r le24 d24
    by simp
  have part: "bag_pos (fst (snd ?part)) = 5"
    using bag_invariant [of zero_context ?rs ?g0 ?r0 "replicate 5 75000"
        "fst ?part" "fst (snd ?part)" "snd (snd ?part)" 0] r le5 d5
    by simp
  show ?thesis
    using n24 n5 full part by simp
qed

end
